theory Spec2Isabelle
  imports Complex_Main
begin

section \<open>The card image processor of tools/process\_assets.py\<close>

text \<open>
  The script reads a manifest of card records, looks up one source image per slug,
  runs a fixed transform (centre crop to 3:4, nearest-neighbour downscale, palette
  quantisation, nearest-neighbour upscale), writes one PNG per card and optionally a
  contact sheet. The embedding below follows the script function by function.

  Python integers are \<^typ>\<open>int\<close>. Python floats are modelled by exact rationals: the
  only float computations of the script are \<open>h * 0.75\<close>, \<open>w / h\<close> and \<open>w / 0.75\<close> on image
  dimensions, and for dimensions below \<open>2^50\<close> the IEEE results of these, after the
  \<open>round\<close>, \<open>int\<close> or comparison applied to them, agree with the exact ones.
  Strings are lists of code points below 256.
\<close>

subsection \<open>Exceptions\<close>

datatype error =
    FileNotFoundError
  | JSONDecodeError
  | AttributeError
  | ValueError
  | ZeroDivisionError
  | UnidentifiedImageError

text \<open>\<open>except OSError\<close> catches exactly the subclasses of \<open>OSError\<close>.\<close>

fun is_OSError :: "error \<Rightarrow> bool" where
  "is_OSError FileNotFoundError = True"
| "is_OSError UnidentifiedImageError = True"
| "is_OSError JSONDecodeError = False"
| "is_OSError AttributeError = False"
| "is_OSError ValueError = False"
| "is_OSError ZeroDivisionError = False"

subsection \<open>Python numerics\<close>

text \<open>\<open>round(x)\<close> on a float: to the nearest integer, a tie going to the even one.\<close>

definition py_round :: "rat \<Rightarrow> int" where
  "py_round x =
     (let f = \<lfloor>x\<rfloor>; d = x - of_int f
      in if d < 1 / 2 then f
         else if 1 / 2 < d then f + 1
         else if even f then f else f + 1)"

text \<open>\<open>int(x)\<close> on a float truncates towards zero.\<close>

definition py_int :: "rat \<Rightarrow> int" where
  "py_int x = (if 0 \<le> x then \<lfloor>x\<rfloor> else \<lceil>x\<rceil>)"

subsection \<open>Rasters and the imaging library\<close>

type_synonym rgb = "nat \<times> nat \<times> nat"

record image =
  width :: int
  height :: int
  pixels :: "int \<Rightarrow> int \<Rightarrow> rgb"

text \<open>Reading a pixel; the library fills what lies outside the raster with black.\<close>

definition getpixel :: "image \<Rightarrow> int \<Rightarrow> int \<Rightarrow> rgb" where
  "getpixel im x y =
     (if 0 \<le> x \<and> x < width im \<and> 0 \<le> y \<and> y < height im then pixels im x y else (0, 0, 0))"

text \<open>\<open>Image.crop((left, upper, right, lower))\<close>.\<close>

definition crop :: "image \<Rightarrow> int \<times> int \<times> int \<times> int \<Rightarrow> error + image" where
  "crop im box =
     (case box of (left, upper, right, lower) \<Rightarrow>
        if right < left \<or> lower < upper then Inl ValueError
        else Inr \<lparr>width = right - left, height = lower - upper,
                  pixels = (\<lambda>x y. getpixel im (left + x) (upper + y))\<rparr>)"

text \<open>
  \<open>Image.resize((w, h), Image.Resampling.NEAREST)\<close>: output pixel \<open>(x, y)\<close> is the source
  pixel under its centre, \<open>(\<lfloor>(x + 1/2) * width / w\<rfloor>, \<lfloor>(y + 1/2) * height / h\<rfloor>)\<close>.
  The library computes the centre in floating point, so where the centre falls exactly on
  the border of two source pixels it may sample the neighbour, and it refuses sizes from
  \<open>2^31\<close>. The theorems below use only the size of the result and that every sampled
  pixel is a pixel of the source.
\<close>

definition resize :: "image \<Rightarrow> int \<times> int \<Rightarrow> error + image" where
  "resize im sz =
     (case sz of (w, h) \<Rightarrow>
        if w < 1 \<or> h < 1 then Inl ValueError
        else Inr \<lparr>width = w, height = h,
                  pixels = (\<lambda>x y. getpixel im (((2 * x + 1) * width im) div (2 * w))
                                             (((2 * y + 1) * height im) div (2 * h)))\<rparr>)"

text \<open>
  \<open>Image.quantize(colors, method=MEDIANCUT).convert("RGB")\<close>. The library accepts between
  1 and 256 colours and returns an image of the same size; which palette the median cut
  selects is left to the library, so the recoloured pixels are the parameter \<open>mediancut\<close>.
\<close>

definition quantize :: "(int \<Rightarrow> image \<Rightarrow> int \<Rightarrow> int \<Rightarrow> rgb) \<Rightarrow> image \<Rightarrow> int \<Rightarrow> error + image" where
  "quantize mediancut im colors =
     (if colors < 1 \<or> 256 < colors then Inl ValueError else Inr (im\<lparr>pixels := mediancut colors im\<rparr>))"

text \<open>\<open>Image.new("RGB", (w, h), color)\<close>.\<close>

definition new_image :: "int \<times> int \<Rightarrow> rgb \<Rightarrow> error + image" where
  "new_image sz color =
     (case sz of (w, h) \<Rightarrow>
        if w < 0 \<or> h < 0 then Inl ValueError
        else Inr \<lparr>width = w, height = h, pixels = (\<lambda>x y. color)\<rparr>)"

text \<open>\<open>sheet.paste(tile, (x, y))\<close>: the tile replaces the pixels of its box.\<close>

definition paste :: "image \<Rightarrow> image \<Rightarrow> int \<times> int \<Rightarrow> image" where
  "paste sheet tile pos =
     (case pos of (x, y) \<Rightarrow>
        sheet\<lparr>pixels := (\<lambda>i j. if x \<le> i \<and> i < x + width tile \<and> y \<le> j \<and> j < y + height tile
                               then pixels tile (i - x) (j - y) else pixels sheet i j)\<rparr>)"


subsection \<open>center\_crop\_to\_ratio\<close>

definition center_crop_to_ratio :: "image \<Rightarrow> rat \<Rightarrow> error + image" where
  "center_crop_to_ratio im target_ratio =
     (if height im = 0 then Inl ZeroDivisionError
      else
        let current_ratio = of_int (width im) / of_int (height im)
        in if target_ratio < current_ratio then
             let new_width = py_int (of_int (height im) * target_ratio);
                 x0 = (width im - new_width) div 2
             in crop im (x0, 0, x0 + new_width, height im)
           else if target_ratio = 0 then Inl ZeroDivisionError
           else
             let new_height = py_int (of_int (width im) / target_ratio);
                 y0 = (height im - new_height) div 2
             in crop im (0, y0, width im, y0 + new_height))"

subsection \<open>Files\<close>

text \<open>
  Slugs are file-system-safe identifiers, so a path is a directory of the repository and
  a file name in it. A file either decodes to an RGB raster
  (\<open>Image.open(...).convert("RGB")\<close>) or is rejected by the decoder as unidentified, which
  is an \<open>OSError\<close>. The other exceptions of the decoder (a \<open>ValueError\<close> of a plugin, the
  decompression bomb check) are not modelled; no theorem below rests on a file that fails to
  decode.
\<close>

datatype dir = SourceDir | ProcessedDir

type_synonym path = "dir \<times> string"

datatype file_content = Raster image | Undecodable

type_synonym filesystem = "path \<rightharpoonup> file_content"

definition open_image :: "filesystem \<Rightarrow> path \<Rightarrow> error + image" where
  "open_image fs p =
     (case fs p of
        None \<Rightarrow> Inl FileNotFoundError
      | Some Undecodable \<Rightarrow> Inl UnidentifiedImageError
      | Some (Raster im) \<Rightarrow> Inr im)"

subsection \<open>find\_source\_image\<close>

definition find_source_image :: "filesystem \<Rightarrow> string \<Rightarrow> path option" where
  "find_source_image fs slug =
     find (\<lambda>candidate. fs candidate \<noteq> None)
       (map (\<lambda>ext. (SourceDir, slug @ ext)) [''.png'', ''.jpg'', ''.jpeg'', ''.webp''])"

subsection \<open>process\_one\<close>

definition process_one ::
  "(int \<Rightarrow> image \<Rightarrow> int \<Rightarrow> int \<Rightarrow> rgb) \<Rightarrow> filesystem \<Rightarrow> path \<Rightarrow> path \<Rightarrow> int \<Rightarrow> int \<Rightarrow> int \<Rightarrow> int \<Rightarrow> int
     \<Rightarrow> error + filesystem" where
  "process_one mediancut fs source destination final_width final_height pixel_width
       pixel_height quantize_arg =
     (case open_image fs source of
        Inl e \<Rightarrow> Inl e
      | Inr im0 \<Rightarrow>
          (case center_crop_to_ratio im0 (3 / 4) of
             Inl e \<Rightarrow> Inl e
           | Inr im1 \<Rightarrow>
               (case resize im1 (pixel_width, pixel_height) of
                  Inl e \<Rightarrow> Inl e
                | Inr im2 \<Rightarrow>
                    (case quantize mediancut im2 (max 2 quantize_arg) of
                       Inl e \<Rightarrow> Inl e
                     | Inr im3 \<Rightarrow>
                         (case resize im3 (final_width, final_height) of
                            Inl e \<Rightarrow> Inl e
                          | Inr im4 \<Rightarrow> Inr (fs(destination \<mapsto> Raster im4)))))))"

subsection \<open>create\_contact\_sheet\<close>

text \<open>The loop over \<open>enumerate(outputs)\<close>; \<open>Image.open\<close> of a tile may raise.\<close>

fun paste_tiles :: "filesystem \<Rightarrow> int \<Rightarrow> int \<Rightarrow> (nat \<times> path) list \<Rightarrow> image \<Rightarrow> error + image" where
  "paste_tiles fs tile_width tile_height [] sheet = Inr sheet"
| "paste_tiles fs tile_width tile_height ((index, output) # rest) sheet =
     (case open_image fs output of
        Inl e \<Rightarrow> Inl e
      | Inr tile \<Rightarrow>
          let columns = 4; margin = 12;
              row = int index div columns;
              column = int index mod columns;
              x = margin + column * (tile_width + margin);
              y = margin + row * (tile_height + margin)
          in paste_tiles fs tile_width tile_height rest (paste sheet tile (x, y)))"

definition create_contact_sheet :: "filesystem \<Rightarrow> path list \<Rightarrow> path \<Rightarrow> int \<Rightarrow> int \<Rightarrow> error + filesystem" where
  "create_contact_sheet fs outputs destination tile_width tile_height =
     (if outputs = [] then Inr fs
      else
        let columns = 4;
            rows = (int (length outputs) + columns - 1) div columns;
            margin = 12
        in case new_image (columns * tile_width + (columns + 1) * margin,
                           rows * tile_height + (rows + 1) * margin) (20, 20, 26) of
             Inl e \<Rightarrow> Inl e
           | Inr sheet \<Rightarrow>
               (case paste_tiles fs tile_width tile_height (enumerate 0 outputs) sheet of
                  Inl e \<Rightarrow> Inl e
                | Inr sheet' \<Rightarrow> Inr (fs(destination \<mapsto> Raster sheet'))))"

subsection \<open>The manifest\<close>

text \<open>
  What \<open>json.load\<close> returns (numbers are taken to be integers). \<open>JObj kvs\<close> is the dict
  with the items \<open>kvs\<close>.
\<close>

datatype json =
    JNull
  | JBool bool
  | JInt int
  | JStr string
  | JList "json list"
  | JObj "(string \<times> json) list"

text \<open>\<open>d.get(key, default)\<close>.\<close>

definition dict_get :: "(string \<times> json) list \<Rightarrow> string \<Rightarrow> json \<Rightarrow> json" where
  "dict_get kvs key dflt = (case map_of kvs key of None \<Rightarrow> dflt | Some v \<Rightarrow> v)"

text \<open>The manifest file: absent, not JSON, or a JSON document.\<close>

datatype manifest = NoManifest | NotJson | Json json

definition load_cards :: "manifest \<Rightarrow> error + json list" where
  "load_cards m =
     (case m of
        NoManifest \<Rightarrow> Inl FileNotFoundError
      | NotJson \<Rightarrow> Inl JSONDecodeError
      | Json data \<Rightarrow>
          (case data of
             JObj kvs \<Rightarrow>
               (case dict_get kvs ''cards'' (JList []) of
                  JList cards \<Rightarrow> Inr cards
                | _ \<Rightarrow> Inl ValueError)
           | _ \<Rightarrow> Inl AttributeError))"

subsection \<open>Python strings: str, repr, strip\<close>

definition is_space :: "char \<Rightarrow> bool" where
  "is_space c = ((of_char c :: nat) \<in> {9, 10, 11, 12, 13, 28, 29, 30, 31, 32, 133, 160})"

definition strip :: "string \<Rightarrow> string" where
  "strip s = rev (dropWhile is_space (rev (dropWhile is_space s)))"

definition digit_char :: "nat \<Rightarrow> char" where
  "digit_char n = char_of (48 + n)"

fun decimal :: "nat \<Rightarrow> string" where
  "decimal n = (if n < 10 then [digit_char n] else decimal (n div 10) @ [digit_char (n mod 10)])"

definition str_int :: "int \<Rightarrow> string" where
  "str_int i = (if i < 0 then ''-'' @ decimal (nat (- i)) else decimal (nat i))"

definition hex_char :: "nat \<Rightarrow> char" where
  "hex_char n = (if n < 10 then char_of (48 + n) else char_of (87 + n))"

definition escape_char :: "char \<Rightarrow> char \<Rightarrow> string" where
  "escape_char q c =
     (let n = (of_char c :: nat)
      in if c = q \<or> n = 92 then [CHR 0x5C, c]
         else if n = 9 then [CHR 0x5C, CHR ''t'']
         else if n = 10 then [CHR 0x5C, CHR ''n'']
         else if n = 13 then [CHR 0x5C, CHR ''r'']
         else if n < 32 \<or> n = 127 \<or> (128 \<le> n \<and> n \<le> 160) \<or> n = 173
           then [CHR 0x5C, CHR ''x'', hex_char (n div 16), hex_char (n mod 16)]
         else [c])"

definition repr_str :: "string \<Rightarrow> string" where
  "repr_str s =
     (let q = (if CHR 0x27 \<in> set s \<and> CHR 0x22 \<notin> set s then CHR 0x22 else CHR 0x27)
      in [q] @ concat (map (escape_char q) s) @ [q])"

fun join :: "string \<Rightarrow> string list \<Rightarrow> string" where
  "join sep [] = []"
| "join sep [x] = x"
| "join sep (x # y # ys) = x @ sep @ join sep (y # ys)"

fun py_repr :: "json \<Rightarrow> string" where
  "py_repr JNull = ''None''"
| "py_repr (JBool b) = (if b then ''True'' else ''False'')"
| "py_repr (JInt i) = str_int i"
| "py_repr (JStr s) = repr_str s"
| "py_repr (JList xs) = ''['' @ join '', '' (map py_repr xs) @ '']''"
| "py_repr (JObj kvs) =
     ''{'' @ join '', '' (map (\<lambda>kv. repr_str (fst kv) @ '': '' @ py_repr (snd kv)) kvs) @ ''}''"

definition py_str :: "json \<Rightarrow> string" where
  "py_str v = (case v of JStr s \<Rightarrow> s | _ \<Rightarrow> py_repr v)"

subsection \<open>main\<close>

record args =
  args_height :: int
  args_pixel_height :: int
  args_quantize :: int
  args_contact_sheet :: bool

text \<open>What the run prints, one event per \<open>print\<close> call.\<close>

datatype event =
    FailedToLoad error
  | InvalidHeights
  | SkippingMalformed json
  | MissingSource string
  | Processed string path
  | FailedToProcess string error
  | GeneratedContactSheet path
  | Done nat int

text \<open>The variables of the card loop, with the file system and the output so far.\<close>

record loop_state =
  disk :: filesystem
  processed_files :: "path list"
  failures :: int
  printed :: "event list"

definition slug_of :: "(string \<times> json) list \<Rightarrow> string" where
  "slug_of kvs = strip (py_str (dict_get kvs ''slug'' (JStr [])))"

definition name_of :: "(string \<times> json) list \<Rightarrow> string" where
  "name_of kvs = strip (py_str (dict_get kvs ''name'' (JStr (slug_of kvs))))"

definition destination_of :: "string \<Rightarrow> path" where
  "destination_of slug = (ProcessedDir, slug @ ''.png'')"

text \<open>
  One iteration of \<open>for card in cards\<close> (\<open>entry\<close> is the card). The result is the exception that leaves the
  loop, if any, and the state. An entry that is not a dict has no \<open>get\<close>.
\<close>

definition process_card ::
  "(int \<Rightarrow> image \<Rightarrow> int \<Rightarrow> int \<Rightarrow> rgb) \<Rightarrow> int \<Rightarrow> int \<Rightarrow> int \<Rightarrow> int \<Rightarrow> int \<Rightarrow> json \<Rightarrow> loop_state
     \<Rightarrow> error option \<times> loop_state" where
  "process_card mediancut final_width final_height pixel_width pixel_height quantize_arg entry st =
     (case entry of
        JObj kvs \<Rightarrow>
          let slug = slug_of kvs; name = name_of kvs
          in if slug = [] then
               (None, st\<lparr>failures := failures st + 1,
                          printed := printed st @ [SkippingMalformed entry]\<rparr>)
             else
               (case find_source_image (disk st) slug of
                  None \<Rightarrow>
                    (None, st\<lparr>failures := failures st + 1,
                               printed := printed st @ [MissingSource slug]\<rparr>)
                | Some source \<Rightarrow>
                    let destination = destination_of slug
                    in (case process_one mediancut (disk st) source destination final_width
                               final_height pixel_width pixel_height quantize_arg of
                          Inr fs' \<Rightarrow>
                            (None, st\<lparr>disk := fs',
                                       processed_files := processed_files st @ [destination],
                                       printed := printed st @ [Processed name destination]\<rparr>)
                        | Inl exc \<Rightarrow>
                            if is_OSError exc then
                              (None, st\<lparr>failures := failures st + 1,
                                         printed := printed st @ [FailedToProcess slug exc]\<rparr>)
                            else (Some exc, st)))
      | _ \<Rightarrow> (Some AttributeError, st))"

fun process_cards ::
  "(int \<Rightarrow> image \<Rightarrow> int \<Rightarrow> int \<Rightarrow> rgb) \<Rightarrow> int \<Rightarrow> int \<Rightarrow> int \<Rightarrow> int \<Rightarrow> int \<Rightarrow> json list \<Rightarrow> loop_state
     \<Rightarrow> error option \<times> loop_state" where
  "process_cards mediancut fw fh pw ph q [] st = (None, st)"
| "process_cards mediancut fw fh pw ph q (entry # rest) st =
     (case process_card mediancut fw fh pw ph q entry st of
        (Some exc, st') \<Rightarrow> (Some exc, st')
      | (None, st') \<Rightarrow> process_cards mediancut fw fh pw ph q rest st')"

text \<open>How the run ends: \<open>main\<close> returns its exit code, or an exception is not caught.\<close>

datatype outcome = Returned int | Uncaught error

text \<open>The interpreter exits with status 1 on an uncaught exception.\<close>

fun exit_status :: "outcome \<Rightarrow> int" where
  "exit_status (Returned code) = code"
| "exit_status (Uncaught exc) = 1"

definition contact_sheet_path :: path where
  "contact_sheet_path = (ProcessedDir, ''contact_sheet.png'')"

definition main ::
  "(int \<Rightarrow> image \<Rightarrow> int \<Rightarrow> int \<Rightarrow> rgb) \<Rightarrow> args \<Rightarrow> manifest \<Rightarrow> filesystem \<Rightarrow> outcome \<times> loop_state" where
  "main mediancut a m fs =
     (case load_cards m of
        Inl exc \<Rightarrow>
          (Returned 1,
           \<lparr>disk = fs, processed_files = [], failures = 0, printed = [FailedToLoad exc]\<rparr>)
      | Inr cards \<Rightarrow>
          if args_pixel_height a \<le> 0 \<or> args_height a \<le> 0 then
            (Returned 1,
             \<lparr>disk = fs, processed_files = [], failures = 0, printed = [InvalidHeights]\<rparr>)
          else
            let final_height = args_height a;
                final_width = max 1 (py_round (of_int final_height * (3 / 4)));
                pixel_height = args_pixel_height a;
                pixel_width = max 1 (py_round (of_int pixel_height * (3 / 4)))
            in (case process_cards mediancut final_width final_height pixel_width pixel_height
                       (args_quantize a) cards
                       \<lparr>disk = fs, processed_files = [], failures = 0, printed = []\<rparr> of
                  (Some exc, st) \<Rightarrow> (Uncaught exc, st)
                | (None, st) \<Rightarrow>
                    (case (if args_contact_sheet a then
                             (case create_contact_sheet (disk st) (processed_files st)
                                     contact_sheet_path final_width final_height of
                                Inl exc \<Rightarrow> Inl exc
                              | Inr fs' \<Rightarrow>
                                  Inr (st\<lparr>disk := fs',
                                          printed := printed st
                                            @ [GeneratedContactSheet contact_sheet_path]\<rparr>))
                           else Inr st) of
                       Inl exc \<Rightarrow> (Uncaught exc, st)
                     | Inr st' \<Rightarrow>
                         (Returned (if failures st' \<noteq> 0 then 1 else 0),
                          st'\<lparr>printed := printed st'
                                @ [Done (length (processed_files st')) (failures st')]\<rparr>))))"

section \<open>Auxiliary notions\<close>

text \<open>Every file the loop has recorded as processed holds a raster of the given size.\<close>

definition sized :: "int \<Rightarrow> int \<Rightarrow> loop_state \<Rightarrow> bool" where
  "sized fw fh st =
     (\<forall>p\<in>set (processed_files st).
        \<exists>im. disk st p = Some (Raster im) \<and> width im = fw \<and> height im = fh)"

text \<open>A small run: one card \<open>a\<close> with a 4 by 4 source, the default arguments.\<close>

definition demo_mediancut :: "int \<Rightarrow> image \<Rightarrow> int \<Rightarrow> int \<Rightarrow> rgb" where
  "demo_mediancut = (\<lambda>n im. pixels im)"

definition demo_args :: args where
  "demo_args = \<lparr>args_height = 256, args_pixel_height = 64, args_quantize = 28,
                 args_contact_sheet = False\<rparr>"

definition demo_manifest :: manifest where
  "demo_manifest =
     Json (JObj [(''cards'', JList [JObj [(''slug'', JStr ''a''), (''name'', JStr ''A'')]])])"

definition demo_image :: image where
  "demo_image = \<lparr>width = 4, height = 4, pixels = (\<lambda>x y. (0, 0, 0))\<rparr>"

definition demo_files :: filesystem where
  "demo_files = [(SourceDir, ''a.png'') \<mapsto> Raster demo_image]"

text \<open>\<open>image.size\<close>, and two sources wider than 3:4.\<close>

definition size_of :: "image \<Rightarrow> int \<times> int" where
  "size_of im = (width im, height im)"

definition square5 :: image where
  "square5 = \<lparr>width = 5, height = 5, pixels = (\<lambda>x y. (0, 0, 0))\<rparr>"

definition wide_image :: image where
  "wide_image = \<lparr>width = 9, height = 5, pixels = (\<lambda>x y. (nat x, nat y, 0))\<rparr>"

text \<open>A run with the contact sheet requested and a card whose source is missing.\<close>

definition sheet_args :: args where
  "sheet_args = demo_args\<lparr>args_contact_sheet := True\<rparr>"

definition lone_manifest :: manifest where
  "lone_manifest = Json (JObj [(''cards'', JList [JObj [(''slug'', JStr ''ghost'')]])])"

definition blank_manifest :: manifest where
  "blank_manifest =
     Json (JObj [(''cards'', JList [JObj [(''name'', JStr ''A''), (''slug'', JStr ''  '')],
                                    JObj [(''slug'', JStr ''a'')]])])"


text \<open>A card that processes successfully on the directories \<open>fs\<close>: it is a dict, its slug is
  not blank, a source image is found and the pipeline raises nothing on it. A card whose
  source is missing: a dict with a slug that is not blank and no source under any probed
  extension.
\<close>

definition processes ::
  "(int \<Rightarrow> image \<Rightarrow> int \<Rightarrow> int \<Rightarrow> rgb) \<Rightarrow> filesystem \<Rightarrow> int \<Rightarrow> int \<Rightarrow> int \<Rightarrow> int \<Rightarrow> int \<Rightarrow> json
     \<Rightarrow> bool" where
  "processes mc fs fw fh pw ph q entry =
     (case entry of
        JObj kvs \<Rightarrow>
          slug_of kvs \<noteq> [] \<and>
          (case find_source_image fs (slug_of kvs) of
             None \<Rightarrow> False
           | Some source \<Rightarrow>
               \<not> isl (process_one mc fs source (destination_of (slug_of kvs)) fw fh pw ph q))
      | _ \<Rightarrow> False)"

definition lacks_source :: "filesystem \<Rightarrow> json \<Rightarrow> bool" where
  "lacks_source fs entry =
     (case entry of
        JObj kvs \<Rightarrow> slug_of kvs \<noteq> [] \<and> find_source_image fs (slug_of kvs) = None
      | _ \<Rightarrow> False)"

text \<open>The output path of a card.\<close>

definition card_destination :: "json \<Rightarrow> path" where
  "card_destination entry =
     (case entry of JObj kvs \<Rightarrow> destination_of (slug_of kvs) | _ \<Rightarrow> destination_of [])"

text \<open>A manifest of two cards, the first without a source image.\<close>

definition pair_manifest :: manifest where
  "pair_manifest =
     Json (JObj [(''cards'', JList [JObj [(''slug'', JStr ''ghost'')],
                                    JObj [(''slug'', JStr ''a''), (''name'', JStr ''A'')]])])"

text \<open>The card loop as \<open>main\<close> runs it: from the arguments, the cards of the manifest and the
  initial directories to the exception that leaves the loop, if any, and the state at the
  end of the loop.
\<close>

definition card_loop ::
  "(int \<Rightarrow> image \<Rightarrow> int \<Rightarrow> int \<Rightarrow> rgb) \<Rightarrow> args \<Rightarrow> json list \<Rightarrow> filesystem
     \<Rightarrow> error option \<times> loop_state" where
  "card_loop mc a cards fs =
     process_cards mc (max 1 (py_round (of_int (args_height a) * (3 / 4)))) (args_height a)
       (max 1 (py_round (of_int (args_pixel_height a) * (3 / 4)))) (args_pixel_height a)
       (args_quantize a) cards
       \<lparr>disk = fs, processed_files = [], failures = 0, printed = []\<rparr>"

text \<open>A card whose output file has the name of the contact sheet.\<close>

definition sheet_slug_manifest :: manifest where
  "sheet_slug_manifest =
     Json (JObj [(''cards'', JList [JObj [(''slug'', JStr ''contact_sheet'')]])])"

definition sheet_slug_files :: filesystem where
  "sheet_slug_files = [(SourceDir, ''contact_sheet.png'') \<mapsto> Raster demo_image]"

text \<open>The box of the contact sheet that the tile of index \<open>i\<close> occupies: column \<open>i mod 4\<close>,
  row \<open>i div 4\<close>, margin 12.
\<close>

definition tile_left :: "int \<Rightarrow> nat \<Rightarrow> int" where
  "tile_left tw i = 12 + int (i mod 4) * (tw + 12)"

definition tile_top :: "int \<Rightarrow> nat \<Rightarrow> int" where
  "tile_top th i = 12 + int (i div 4) * (th + 12)"

definition in_box :: "int \<Rightarrow> int \<Rightarrow> nat \<Rightarrow> int \<Rightarrow> int \<Rightarrow> bool" where
  "in_box tw th i X Y =
     (tile_left tw i \<le> X \<and> X < tile_left tw i + tw \<and> tile_top th i \<le> Y \<and> Y < tile_top th i + th)"

text \<open>Five processed cards of 3 by 2 pixels.\<close>

definition tile_image :: image where
  "tile_image = \<lparr>width = 3, height = 2, pixels = (\<lambda>x y. (nat x, nat y, 7))\<rparr>"

definition tile_files :: filesystem where
  "tile_files = (\<lambda>p. if fst p = ProcessedDir then Some (Raster tile_image) else None)"

definition tile_outputs :: "path list" where
  "tile_outputs = map (Pair ProcessedDir) [''a.png'', ''b.png'', ''c.png'', ''d.png'', ''e.png'']"

section \<open>Verification\<close>

subsection \<open>Shared lemmas\<close>

lemma py_round_ge_floor: "\<lfloor>x\<rfloor> \<le> py_round x"
  by (simp add: py_round_def Let_def)

lemma py_round_pos: 
  assumes "0 < h" shows "1 \<le> py_round (of_int h * (3 / 4))"
proof -
  let ?x = "of_int h * (3 / 4) :: rat"
  have x: "3 / 4 \<le> ?x" using assms by simp
  then have f0: "0 \<le> \<lfloor>?x\<rfloor>" by (simp add: le_floor_iff)
  show ?thesis
  proof (cases "\<lfloor>?x\<rfloor> = 0")
    case True
    then have "1 / 2 < ?x - of_int \<lfloor>?x\<rfloor>" using x by simp
    then show ?thesis using True by (simp add: py_round_def Let_def)
  next
    case False
    then have "1 \<le> \<lfloor>?x\<rfloor>" using f0 by linarith
    then show ?thesis using py_round_ge_floor [of ?x] by linarith
  qed
qed

lemma resize_Inr: "resize im (w, h) = Inr im' \<Longrightarrow> width im' = w \<and> height im' = h"
  by (auto simp: resize_def split: if_splits)

lemma process_one_Inr:
  assumes "process_one mc fs src dst fw fh pw ph q = Inr fs'"
  shows "\<exists>im. fs' = fs(dst \<mapsto> Raster im) \<and> width im = fw \<and> height im = fh"
  using assms unfolding process_one_def
  by (auto split: sum.splits dest: resize_Inr)

lemma process_card_sized:
  assumes "process_card mc fw fh pw ph q entry st = (r, st')" and "sized fw fh st"
  shows "sized fw fh st'"
  using assms unfolding process_card_def Let_def sized_def
  by (auto split: json.splits if_splits option.splits sum.splits dest!: process_one_Inr)

lemma process_cards_sized:
  assumes "process_cards mc fw fh pw ph q cards st = (r, st')" and "sized fw fh st"
  shows "sized fw fh st'"
  using assms
proof (induction cards arbitrary: st)
  case Nil
  then show ?case by simp
next
  case (Cons entry rest)
  obtain r1 st1 where s1: "process_card mc fw fh pw ph q entry st = (r1, st1)" by force
  then have z1: "sized fw fh st1" using Cons.prems(2) process_card_sized by blast
  show ?case
  proof (cases r1)
    case None
    then show ?thesis using Cons.prems(1) s1 Cons.IH [OF _ z1] by simp
  next
    case (Some e)
    then show ?thesis using Cons.prems(1) s1 z1 by simp
  qed
qed

lemma create_contact_sheet_Inr:
  assumes "create_contact_sheet fs outputs dst tw th = Inr fs'"
  shows "fs' = fs \<or> (\<exists>sheet. fs' = fs(dst \<mapsto> Raster sheet))"
  using assms unfolding create_contact_sheet_def Let_def
  by (auto split: if_splits sum.splits)


lemmas run_defs = main_def load_cards_def dict_get_def py_round_def process_card_def
     slug_of_def name_of_def py_str_def strip_def is_space_def find_source_image_def
     process_one_def open_image_def center_crop_to_ratio_def py_int_def crop_def resize_def quantize_def destination_of_def Let_def

lemma main_loop_cases:
  assumes "main mc a m fs = (oc, st)" and "0 < args_height a" and "0 < args_pixel_height a"
    and "load_cards m = Inr cards"
  obtains r st1 where
    "process_cards mc (py_round (of_int (args_height a) * (3 / 4))) (args_height a)
        (py_round (of_int (args_pixel_height a) * (3 / 4))) (args_pixel_height a)
        (args_quantize a) cards
        \<lparr>disk = fs, processed_files = [], failures = 0, printed = []\<rparr> = (r, st1)"
    "processed_files st = processed_files st1"
    "failures st = failures st1"
    "\<And>p. args_contact_sheet a \<longrightarrow> p \<noteq> contact_sheet_path \<Longrightarrow> disk st p = disk st1 p"
proof -
  let ?fw = "py_round (of_int (args_height a) * (3 / 4))"
  let ?pw = "py_round (of_int (args_pixel_height a) * (3 / 4))"
  have fw: "max 1 ?fw = ?fw" using py_round_pos [OF assms(2)] by simp
  have pw: "max 1 ?pw = ?pw" using py_round_pos [OF assms(3)] by simp
  obtain r st1 where loop:
    "process_cards mc ?fw (args_height a) ?pw (args_pixel_height a) (args_quantize a) cards
        \<lparr>disk = fs, processed_files = [], failures = 0, printed = []\<rparr> = (r, st1)"
    by force
  have "processed_files st = processed_files st1 \<and> failures st = failures st1 \<and>
        (\<forall>p. (args_contact_sheet a \<longrightarrow> p \<noteq> contact_sheet_path) \<longrightarrow> disk st p = disk st1 p)"
    using assms loop unfolding main_def Let_def fw pw
    by (auto split: option.splits sum.splits if_splits dest!: create_contact_sheet_Inr)
  then show ?thesis using that loop by blast
qed

subsection \<open>C1: output dimensions\<close>

text \<open>
  C1. For every run with height > 0 and pixel-height > 0, every processed card image
  written by the pipeline has pixel dimensions exactly (round(height * 0.75), height), the
  same for the whole batch: every file that the run counts as processed holds, when the
  card loop of the run ends, an image of exactly that size. \<open>round\<close> is Python's, which
  rounds a tie to the even integer (height 6 gives width 4). After the loop the run writes
  at most one more file, the contact sheet.
\<close>

theorem C1_output_dimensions:
  assumes "0 < args_height a" and "0 < args_pixel_height a"
    and "main mc a m fs = (oc, st)"
    and "p \<in> set (processed_files st)"
  shows "\<exists>cards r st1. load_cards m = Inr cards \<and> card_loop mc a cards fs = (r, st1)
          \<and> processed_files st = processed_files st1
          \<and> (\<exists>im. disk st1 p = Some (Raster im)
                \<and> width im = py_round (of_int (args_height a) * (3 / 4))
                \<and> height im = args_height a)
          \<and> (\<forall>p'. p' \<noteq> contact_sheet_path \<longrightarrow> disk st p' = disk st1 p')"
proof (cases "load_cards m")
  case (Inl e)
  then show ?thesis using assms by (auto simp: main_def)
next
  case (Inr cards)
  have fw: "max 1 (py_round (of_int (args_height a) * (3 / 4)))
      = py_round (of_int (args_height a) * (3 / 4))"
    using py_round_pos [OF assms(1)] by simp
  have pw: "max 1 (py_round (of_int (args_pixel_height a) * (3 / 4)))
      = py_round (of_int (args_pixel_height a) * (3 / 4))"
    using py_round_pos [OF assms(2)] by simp
  from main_loop_cases [OF assms(3) assms(1) assms(2) Inr] obtain r st1 where
    loop: "process_cards mc (py_round (of_int (args_height a) * (3 / 4))) (args_height a)
        (py_round (of_int (args_pixel_height a) * (3 / 4))) (args_pixel_height a)
        (args_quantize a) cards
        \<lparr>disk = fs, processed_files = [], failures = 0, printed = []\<rparr> = (r, st1)"
    and pf: "processed_files st = processed_files st1"
    and dk: "\<And>p. args_contact_sheet a \<longrightarrow> p \<noteq> contact_sheet_path \<Longrightarrow> disk st p = disk st1 p"
    by blast
  have cl: "card_loop mc a cards fs = (r, st1)"
    unfolding card_loop_def fw pw by (rule loop)
  have "sized (py_round (of_int (args_height a) * (3 / 4))) (args_height a) st1"
    by (rule process_cards_sized [OF loop]) (simp add: sized_def)
  then have "\<exists>im. disk st1 p = Some (Raster im)
                \<and> width im = py_round (of_int (args_height a) * (3 / 4))
                \<and> height im = args_height a"
    using assms(4) pf by (auto simp: sized_def)
  then show ?thesis using Inr cl pf dk by blast
qed

theorem C1_output_dimensions_witness:
  "\<exists>cards r st1. load_cards sheet_slug_manifest = Inr cards
     \<and> card_loop demo_mediancut sheet_args cards sheet_slug_files = (r, st1)
     \<and> (\<exists>im. disk st1 contact_sheet_path = Some (Raster im) \<and> width im = 192 \<and> height im = 256)"
proof -
  have h: "0 < args_height sheet_args" "0 < args_pixel_height sheet_args"
    by (simp_all add: sheet_args_def demo_args_def)
  have p: "contact_sheet_path \<in> set (processed_files
      (snd (main demo_mediancut sheet_args sheet_slug_manifest sheet_slug_files)))"
    by (simp add: run_defs sheet_slug_manifest_def sheet_args_def demo_args_def
        sheet_slug_files_def demo_image_def demo_mediancut_def contact_sheet_path_def
        create_contact_sheet_def new_image_def paste_def)
  have m: "main demo_mediancut sheet_args sheet_slug_manifest sheet_slug_files
      = (fst (main demo_mediancut sheet_args sheet_slug_manifest sheet_slug_files),
         snd (main demo_mediancut sheet_args sheet_slug_manifest sheet_slug_files))"
    by simp
  have hh: "args_height sheet_args = 256"
    by (simp add: sheet_args_def demo_args_def)
  have w: "py_round (of_int 256 * (3 / 4)) = 192"
    by (simp add: py_round_def)
  from C1_output_dimensions [OF h m p] show ?thesis unfolding hh w by blast
qed

subsection \<open>C2: the centre crop\<close>

lemma py_int_three_quarters: "0 \<le> h \<Longrightarrow> py_int (of_int h * (3 / 4)) = (3 * h) div 4"
proof -
  assume h: "0 \<le> h"
  have e: "(of_int h * (3 / 4) :: rat) = of_int (3 * h) / of_int 4" by simp
  have f: "\<lfloor>of_int (3 * h) / of_int 4 :: rat\<rfloor> = (3 * h) div 4"
    by (rule floor_divide_of_int_eq)
  have g: "(0::rat) \<le> of_int h * (3 / 4)" using h by simp
  show ?thesis unfolding py_int_def using g by (simp only: if_True e f)
qed

lemma py_int_four_thirds: "0 \<le> w \<Longrightarrow> py_int (of_int w / (3 / 4)) = (4 * w) div 3"
proof -
  assume w: "0 \<le> w"
  have e: "(of_int w / (3 / 4) :: rat) = of_int (4 * w) / of_int 3" by simp
  have f: "\<lfloor>of_int (4 * w) / of_int 3 :: rat\<rfloor> = (4 * w) div 3"
    by (rule floor_divide_of_int_eq)
  have g: "(0::rat) \<le> of_int w / (3 / 4)" using w by simp
  show ?thesis unfolding py_int_def using g by (simp only: if_True e f)
qed

lemma ratio_wider: "0 < h \<Longrightarrow> ((3 / 4 :: rat) < of_int w / of_int h) = (3 * h < 4 * w)"
proof -
  assume h: "0 < h"
  have "((3 / 4 :: rat) < of_int w / of_int h) = ((3::rat) * of_int h < 4 * of_int w)"
    using h by (simp add: field_simps)
  also have "\<dots> = ((of_int (3 * h) :: rat) < of_int (4 * w))" by simp
  also have "\<dots> = (3 * h < 4 * w)" by (simp only: of_int_less_iff)
  finally show ?thesis .
qed

lemma py_round_three_quarters:
  "py_round (of_int h * (3 / 4)) =
     (let f = (3 * h) div 4; r = (3 * h) mod 4
      in if r < 2 then f else if 2 < r then f + 1 else if even f then f else f + 1)"
proof -
  define q where "q = (3 * h) div 4"
  define r where "r = (3 * h) mod 4"
  let ?x = "of_int h * (3 / 4) :: rat"
  have e: "?x = of_int (3 * h) / of_int 4" by simp
  have f: "\<lfloor>?x\<rfloor> = q"
    unfolding e q_def by (rule floor_divide_of_int_eq)
  have m: "3 * h = 4 * q + r" unfolding q_def r_def by simp
  have "(of_int (3 * h) :: rat) = of_int (4 * q + r)" by (simp only: m)
  then have "(3 * of_int h :: rat) = 4 * of_int q + of_int r" by simp
  then have d: "?x - of_int q = of_int r / 4" by (simp add: field_simps)
  have lt: "(of_int r / 4 < (1 / 2 :: rat)) = (r < 2)"
  proof -
    have "(of_int r / 4 < (1 / 2 :: rat)) = ((of_int r :: rat) < of_int 2)" by (simp add: field_simps)
    then show ?thesis by (simp only: of_int_less_iff)
  qed
  have gt: "((1 / 2 :: rat) < of_int r / 4) = (2 < r)"
  proof -
    have "((1 / 2 :: rat) < of_int r / 4) = ((of_int 2 :: rat) < of_int r)" by (simp add: field_simps)
    then show ?thesis by (simp only: of_int_less_iff)
  qed
  have "py_round ?x = (if r < 2 then q else if 2 < r then q + 1 else if even q then q else q + 1)"
    unfolding py_round_def Let_def f d lt gt ..
  then show ?thesis unfolding q_def r_def Let_def .
qed

text \<open>
  C2 as stated fails: the crop of a source wider than 3:4 has width \<open>int(height * 0.75)\<close>,
  which truncates, not \<open>round(height * 0.75)\<close>. A 5 by 5 source is cropped to width 3,
  while round(3.75) is 4.
\<close>

theorem C2_counterexample:
  "(3 / 4 :: rat) < of_int (width square5) / of_int (height square5)
   \<and> map_sum id size_of (center_crop_to_ratio square5 (3 / 4)) = Inr (3, 5)
   \<and> py_round (of_int (height square5) * (3 / 4)) = 4"
  using py_int_three_quarters [of 5] py_round_three_quarters [of 5]
  by (simp add: square5_def center_crop_to_ratio_def crop_def size_of_def Let_def)

text \<open>
  C2, amended. For a source of positive height whose width/height ratio exceeds 3/4,
  \<open>center_crop_to_ratio\<close> returns an image of the same height whose width is
  \<open>int(height * 0.75)\<close>, the floor of 3/4 of the height, taken from column \<open>left\<close> on,
  where the discarded left and right margins differ by at most one pixel (the right one
  is the larger). For a source at or below ratio 3/4 it keeps the width and crops to
  height \<open>int(width / 0.75)\<close>, the floor of 4/3 of the width, taken from row \<open>top\<close> on,
  the top and bottom margins differing by at most one pixel.
\<close>

theorem C2_center_crop:
  assumes "0 < height im" and "0 \<le> width im"
  shows "\<exists>im' left top.
           center_crop_to_ratio im (3 / 4) = Inr im'
         \<and> (if (3 / 4 :: rat) < of_int (width im) / of_int (height im)
            then height im' = height im \<and> width im' = \<lfloor>of_int (height im) * (3 / 4 :: rat)\<rfloor>
               \<and> top = 0 \<and> left = (width im - width im') div 2
               \<and> 0 \<le> left \<and> left \<le> width im - width im' - left
               \<and> width im - width im' - left \<le> left + 1
            else width im' = width im \<and> height im' = \<lfloor>of_int (width im) / (3 / 4 :: rat)\<rfloor>
               \<and> left = 0 \<and> top = (height im - height im') div 2
               \<and> 0 \<le> top \<and> top \<le> height im - height im' - top
               \<and> height im - height im' - top \<le> top + 1)
         \<and> (\<forall>x y. 0 \<le> x \<and> x < width im' \<and> 0 \<le> y \<and> y < height im'
               \<longrightarrow> pixels im' x y = pixels im (left + x) (top + y))"
proof (cases "(3 / 4 :: rat) < of_int (width im) / of_int (height im)")
  case True
  let ?nw = "(3 * height im) div 4"
  let ?x0 = "(width im - ?nw) div 2"
  have wide: "3 * height im < 4 * width im" using True ratio_wider [OF assms(1)] by simp
  have nw: "py_int (of_int (height im) * (3 / 4)) = ?nw"
    using assms(1) py_int_three_quarters [of "height im"] by simp
  have fl: "\<lfloor>of_int (height im) * (3 / 4 :: rat)\<rfloor> = ?nw"
    using nw assms(1) by (simp add: py_int_def)
  have b: "0 \<le> ?nw" "?nw < width im" using wide assms(1) by linarith+
  have c: "center_crop_to_ratio im (3 / 4)
      = Inr \<lparr>width = ?nw, height = height im, pixels = (\<lambda>x y. getpixel im (?x0 + x) (0 + y))\<rparr>"
    using True assms(1) b unfolding center_crop_to_ratio_def Let_def nw crop_def by simp
  show ?thesis
    apply (rule exI [of _ "\<lparr>width = ?nw, height = height im, pixels = (\<lambda>x y. getpixel im (?x0 + x) (0 + y))\<rparr>"])
    apply (rule exI [of _ ?x0])
    apply (rule exI [of _ 0])
    using True b c fl apply (simp add: getpixel_def)
    apply (intro conjI)
      apply linarith+
    done
next
  case False
  let ?nh = "(4 * width im) div 3"
  let ?y0 = "(height im - ?nh) div 2"
  have tall: "4 * width im \<le> 3 * height im" using False ratio_wider [OF assms(1)] by simp
  have nh: "py_int (of_int (width im) / (3 / 4)) = ?nh"
    using assms(2) py_int_four_thirds [of "width im"] by simp
  have fl: "\<lfloor>of_int (width im) / (3 / 4 :: rat)\<rfloor> = ?nh"
    using nh assms(2) by (simp add: py_int_def)
  have b: "0 \<le> ?nh" "?nh \<le> height im" using tall assms(2) by linarith+
  have c: "center_crop_to_ratio im (3 / 4)
      = Inr \<lparr>width = width im, height = ?nh, pixels = (\<lambda>x y. getpixel im (0 + x) (?y0 + y))\<rparr>"
    using False assms b unfolding center_crop_to_ratio_def Let_def nh crop_def by simp
  show ?thesis
    apply (rule exI [of _ "\<lparr>width = width im, height = ?nh, pixels = (\<lambda>x y. getpixel im (0 + x) (?y0 + y))\<rparr>"])
    apply (rule exI [of _ 0])
    apply (rule exI [of _ ?y0])
    using False b c fl apply (simp add: getpixel_def)
    apply (intro conjI)
      apply linarith+
    done
qed

theorem C2_center_crop_witness:
  "\<exists>im'. center_crop_to_ratio wide_image (3 / 4) = Inr im'
       \<and> height im' = 5 \<and> width im' = 3 \<and> pixels im' 0 0 = pixels wide_image 3 0"
proof -
  have h: "0 < height wide_image" "0 \<le> width wide_image"
    by (simp_all add: wide_image_def)
  have r: "(3 / 4 :: rat) < of_int (width wide_image) / of_int (height wide_image)"
    by (simp add: wide_image_def)
  have f: "\<lfloor>of_int (height wide_image) * (3 / 4 :: rat)\<rfloor> = 3"
    using py_int_three_quarters [of 5] by (simp add: py_int_def wide_image_def)
  from C2_center_crop [OF h] obtain im' left top where
    c: "center_crop_to_ratio wide_image (3 / 4) = Inr im'"
    and d: "height im' = height wide_image" "width im' = 3" "top = 0"
      "left = (width wide_image - width im') div 2"
    and p: "\<forall>x y. 0 \<le> x \<and> x < width im' \<and> 0 \<le> y \<and> y < height im'
               \<longrightarrow> pixels im' x y = pixels wide_image (left + x) (top + y)"
    unfolding f using r by auto
  have "left = 3" using d by (simp add: wide_image_def)
  moreover have "pixels im' 0 0 = pixels wide_image (left + 0) (top + 0)"
    using p d by (simp add: wide_image_def)
  ultimately show ?thesis using c d by (simp add: wide_image_def)
qed

subsection \<open>C3: a malformed manifest\<close>

text \<open>
  C3 as stated fails for a missing key: \<open>data.get("cards", [])\<close> reads a manifest object
  without the key \<open>cards\<close> as an empty list of cards, and the run exits 0.
\<close>

theorem C3_counterexample:
  "map_of [] ''cards'' = None
   \<and> load_cards (Json (JObj [])) = Inr []
   \<and> exit_status (fst (main demo_mediancut demo_args (Json (JObj [])) demo_files)) = 0"
  by (simp add: main_def load_cards_def dict_get_def demo_args_def Let_def)

text \<open>
  C3, amended. For every manifest object whose key \<open>cards\<close> is present with a value that is
  not a list, the run fails immediately with exit code 1, processes no cards and writes
  nothing. A manifest object without the key \<open>cards\<close> is read as an empty list of cards:
  with valid heights the run processes no cards and exits 0.
\<close>

theorem C3_cards_not_a_list:
  "(map_of kvs ''cards'' = Some v \<and> (\<forall>cards. v \<noteq> JList cards) \<longrightarrow>
      main mc a (Json (JObj kvs)) fs
        = (Returned 1, \<lparr>disk = fs, processed_files = [], failures = 0,
                         printed = [FailedToLoad ValueError]\<rparr>))
   \<and> (map_of kvs ''cards'' = None \<longrightarrow>
        load_cards (Json (JObj kvs)) = Inr []
      \<and> (0 < args_height a \<and> 0 < args_pixel_height a \<longrightarrow>
           fst (main mc a (Json (JObj kvs)) fs) = Returned 0
         \<and> processed_files (snd (main mc a (Json (JObj kvs)) fs)) = []
         \<and> disk (snd (main mc a (Json (JObj kvs)) fs)) = fs))"
proof (intro conjI impI)
  assume "map_of kvs ''cards'' = Some v \<and> (\<forall>cards. v \<noteq> JList cards)"
  then have "load_cards (Json (JObj kvs)) = Inl ValueError"
    by (cases v) (simp_all add: load_cards_def dict_get_def)
  then show "main mc a (Json (JObj kvs)) fs
        = (Returned 1, \<lparr>disk = fs, processed_files = [], failures = 0,
                         printed = [FailedToLoad ValueError]\<rparr>)"
    by (simp add: main_def)
next
  assume none: "map_of kvs ''cards'' = None"
  then show l: "load_cards (Json (JObj kvs)) = Inr []"
    by (simp add: load_cards_def dict_get_def)
  assume h: "0 < args_height a \<and> 0 < args_pixel_height a"
  have c: "create_contact_sheet fs [] contact_sheet_path w t = Inr fs" for w t
    by (simp add: create_contact_sheet_def)
  show "fst (main mc a (Json (JObj kvs)) fs) = Returned 0"
    using l h c by (simp add: main_def Let_def)
  show "processed_files (snd (main mc a (Json (JObj kvs)) fs)) = []"
    using l h c by (simp add: main_def Let_def)
  show "disk (snd (main mc a (Json (JObj kvs)) fs)) = fs"
    using l h c by (simp add: main_def Let_def)
qed

theorem C3_cards_not_a_list_witness:
  "main demo_mediancut demo_args (Json (JObj [(''cards'', JStr ''none'')])) demo_files
     = (Returned 1, \<lparr>disk = demo_files, processed_files = [], failures = 0,
                      printed = [FailedToLoad ValueError]\<rparr>)
   \<and> fst (main demo_mediancut demo_args (Json (JObj [(''decks'', JList [])])) demo_files)
       = Returned 0"
proof -
  have a: "map_of [(''cards'', JStr ''none'')] ''cards'' = Some (JStr ''none'')
      \<and> (\<forall>cards. JStr ''none'' \<noteq> JList cards)"
    by simp
  have b: "map_of [(''decks'', JList [])] ''cards'' = None" by simp
  have h: "0 < args_height demo_args \<and> 0 < args_pixel_height demo_args"
    by (simp add: demo_args_def)
  show ?thesis
    using C3_cards_not_a_list [of "[(''cards'', JStr ''none'')]" "JStr ''none''" demo_mediancut demo_args demo_files] a
      C3_cards_not_a_list [of "[(''decks'', JList [])]" JNull demo_mediancut demo_args demo_files] b h
    by blast
qed

subsection \<open>C7: invalid heights\<close>

text \<open>
  C7. For every run where the requested final height or pixel height is at most 0, the
  run fails with exit code 1 before any card is processed: nothing is recorded as
  processed, no failure is counted, the file system is unchanged, and the only output is
  the message about the heights (or, as the manifest is loaded first, the message that
  it could not be loaded). The script reports the configuration error by this message and
  the return value 1.
\<close>

theorem C7_invalid_heights:
  assumes "args_height a \<le> 0 \<or> args_pixel_height a \<le> 0"
  shows "fst (main mc a m fs) = Returned 1
       \<and> exit_status (fst (main mc a m fs)) = 1
       \<and> disk (snd (main mc a m fs)) = fs
       \<and> processed_files (snd (main mc a m fs)) = []
       \<and> failures (snd (main mc a m fs)) = 0
       \<and> (case load_cards m of
            Inl exc \<Rightarrow> printed (snd (main mc a m fs)) = [FailedToLoad exc]
          | Inr cards \<Rightarrow> printed (snd (main mc a m fs)) = [InvalidHeights])"
  using assms by (cases "load_cards m") (auto simp: main_def)

theorem C7_invalid_heights_witness:
  "fst (main demo_mediancut (demo_args\<lparr>args_height := 0\<rparr>) demo_manifest demo_files) = Returned 1
   \<and> disk (snd (main demo_mediancut (demo_args\<lparr>args_height := 0\<rparr>) demo_manifest demo_files))
       = demo_files
   \<and> printed (snd (main demo_mediancut (demo_args\<lparr>args_height := 0\<rparr>) demo_manifest demo_files))
       = [InvalidHeights]"
proof -
  have h: "args_height (demo_args\<lparr>args_height := 0\<rparr>) \<le> 0
      \<or> args_pixel_height (demo_args\<lparr>args_height := 0\<rparr>) \<le> 0"
    by simp
  have l: "load_cards demo_manifest
      = Inr [JObj [(''slug'', JStr ''a''), (''name'', JStr ''A'')]]"
    by (simp add: load_cards_def demo_manifest_def dict_get_def)
  show ?thesis
    using C7_invalid_heights [OF h, of demo_mediancut demo_manifest demo_files] l by simp
qed

subsection \<open>The card loop: bookkeeping\<close>

lemma process_card_growth:
  assumes "process_card mc fw fh pw ph q entry st = (r, st')"
  shows "failures st \<le> failures st'
       \<and> ((disk st' = disk st \<and> processed_files st' = processed_files st)
          \<or> (\<exists>d. processed_files st' = processed_files st @ [d]))"
  using assms unfolding process_card_def Let_def
  by (auto split: json.splits if_splits option.splits sum.splits)

lemma process_cards_growth:
  assumes "process_cards mc fw fh pw ph q cards st = (r, st')"
  shows "failures st \<le> failures st'
       \<and> (\<exists>ds. processed_files st' = processed_files st @ ds \<and> (ds = [] \<longrightarrow> disk st' = disk st))"
  using assms
proof (induction cards arbitrary: st)
  case Nil
  then show ?case by simp
next
  case (Cons entry rest)
  obtain r1 st1 where s1: "process_card mc fw fh pw ph q entry st = (r1, st1)" by force
  note g1 = process_card_growth [OF s1]
  show ?case
  proof (cases r1)
    case None
    then have "process_cards mc fw fh pw ph q rest st1 = (r, st')"
      using Cons.prems s1 by simp
    from Cons.IH [OF this] g1 show ?thesis by auto
  next
    case (Some e)
    then have "st' = st1" using Cons.prems s1 by simp
    then show ?thesis using g1 by auto
  qed
qed

lemma process_card_blank:
  assumes "slug_of kvs = []"
  shows "process_card mc fw fh pw ph q (JObj kvs) st
       = (None, st\<lparr>failures := failures st + 1,
                   printed := printed st @ [SkippingMalformed (JObj kvs)]\<rparr>)"
  using assms by (simp add: process_card_def)

lemma process_cards_blank_counted:
  assumes "process_cards mc fw fh pw ph q cards st = (None, st')"
    and "JObj kvs \<in> set cards" and "slug_of kvs = []"
  shows "failures st < failures st'"
  using assms
proof (induction cards arbitrary: st)
  case Nil
  then show ?case by simp
next
  case (Cons entry rest)
  obtain r1 st1 where s1: "process_card mc fw fh pw ph q entry st = (r1, st1)" by force
  then have r1: "r1 = None" and rest: "process_cards mc fw fh pw ph q rest st1 = (None, st')"
    using Cons.prems(1) by (auto split: option.splits)
  have le1: "failures st \<le> failures st1" using process_card_growth [OF s1] by simp
  have le2: "failures st1 \<le> failures st'" using process_cards_growth [OF rest] by simp
  show ?case
  proof (cases "entry = JObj kvs")
    case True
    then have "failures st1 = failures st + 1"
      using s1 process_card_blank [OF Cons.prems(3), of mc fw fh pw ph q st] by auto
    then show ?thesis using le2 by simp
  next
    case False
    then have "JObj kvs \<in> set rest" using Cons.prems(2) by simp
    from Cons.IH [OF rest this Cons.prems(3)] le1 show ?thesis by simp
  qed
qed

lemma slug_of_missing: "map_of kvs ''slug'' = None \<Longrightarrow> slug_of kvs = []"
  by (simp add: slug_of_def dict_get_def py_str_def strip_def)

subsection \<open>C9: entries without a usable slug\<close>

text \<open>
  C9. A manifest entry (a JSON object) whose slug is missing, or whose slug converts to
  text that is blank after stripping white space, is skipped: the loop counts one
  failure, prints the entry, writes no file and goes on with the next entry; and a run
  whose manifest has such an entry exits with status 1.
\<close>

theorem C9_blank_slug_skipped:
  assumes "map_of kvs ''slug'' = None \<or> strip (py_str (dict_get kvs ''slug'' (JStr []))) = []"
  shows "process_cards mc fw fh pw ph q (JObj kvs # rest) st
           = process_cards mc fw fh pw ph q rest
               (st\<lparr>failures := failures st + 1,
                   printed := printed st @ [SkippingMalformed (JObj kvs)]\<rparr>)
       \<and> disk (st\<lparr>failures := failures st + 1,
                  printed := printed st @ [SkippingMalformed (JObj kvs)]\<rparr>) = disk st
       \<and> (load_cards m = Inr cards \<and> JObj kvs \<in> set cards
            \<longrightarrow> exit_status (fst (main mc a m fs)) = 1)"
proof -
  have blank: "slug_of kvs = []"
    using assms slug_of_missing by (auto simp: slug_of_def)
  have skip: "process_cards mc fw fh pw ph q (JObj kvs # rest) st
           = process_cards mc fw fh pw ph q rest
               (st\<lparr>failures := failures st + 1,
                   printed := printed st @ [SkippingMalformed (JObj kvs)]\<rparr>)"
    by (simp add: process_card_blank [OF blank])
  have exit1: "exit_status (fst (main mc a m fs)) = 1"
    if l: "load_cards m = Inr cards" and mem: "JObj kvs \<in> set cards"
  proof (cases "args_pixel_height a \<le> 0 \<or> args_height a \<le> 0")
    case True
    then show ?thesis using l by (auto simp: main_def)
  next
    case False
    let ?st0 = "\<lparr>disk = fs, processed_files = [], failures = 0, printed = []\<rparr>"
    let ?fw = "max 1 (py_round (of_int (args_height a) * (3 / 4)))"
    let ?pw = "max 1 (py_round (of_int (args_pixel_height a) * (3 / 4)))"
    obtain r st1 where loop:
      "process_cards mc ?fw (args_height a) ?pw (args_pixel_height a) (args_quantize a) cards ?st0
         = (r, st1)"
      by force
    show ?thesis
    proof (cases r)
      case (Some e)
      then show ?thesis using l False loop by (simp add: main_def Let_def)
    next
      case None
      then have "failures ?st0 < failures st1"
        using process_cards_blank_counted [OF _ mem blank] loop by blast
      then have "failures st1 \<noteq> 0" by simp
      then show ?thesis using l False loop None
        by (auto simp: main_def Let_def split: sum.splits)
    qed
  qed
  show ?thesis using skip exit1 by simp
qed

theorem C9_blank_slug_skipped_witness:
  "exit_status (fst (main demo_mediancut demo_args blank_manifest demo_files)) = 1
   \<and> process_cards demo_mediancut 192 256 48 64 28
        [JObj [(''name'', JStr ''A''), (''slug'', JStr ''  '')]]
        \<lparr>disk = demo_files, processed_files = [], failures = 0, printed = []\<rparr>
      = (None, \<lparr>disk = demo_files, processed_files = [], failures = 1,
                 printed = [SkippingMalformed (JObj [(''name'', JStr ''A''), (''slug'', JStr ''  '')])]\<rparr>)"
proof -
  let ?kvs = "[(''name'', JStr ''A''), (''slug'', JStr ''  '')]"
  have h: "map_of ?kvs ''slug'' = None \<or> strip (py_str (dict_get ?kvs ''slug'' (JStr []))) = []"
    by (simp add: dict_get_def py_str_def strip_def is_space_def)
  have l: "load_cards blank_manifest = Inr [JObj ?kvs, JObj [(''slug'', JStr ''a'')]]"
    by (simp add: blank_manifest_def load_cards_def dict_get_def)
  have m: "JObj ?kvs \<in> set [JObj ?kvs, JObj [(''slug'', JStr ''a'')]]" by simp
  show ?thesis
    using C9_blank_slug_skipped [OF h, of demo_mediancut 192 256 48 64 28 "[]"
        "\<lparr>disk = demo_files, processed_files = [], failures = 0, printed = []\<rparr>"
        blank_manifest "[JObj ?kvs, JObj [(''slug'', JStr ''a'')]]" demo_args demo_files] l m
    by simp
qed

subsection \<open>C10: the contact sheet of an empty batch\<close>

text \<open>
  C10. When the contact sheet is requested and the card loop ends with no card processed,
  \<open>create_contact_sheet\<close> returns without effect on the empty list: the run has written no
  file at all, in particular no \<open>contact_sheet.png\<close>, and it still prints that the contact
  sheet was generated.
\<close>

theorem C10_empty_contact_sheet:
  assumes "args_contact_sheet a"
    and "0 < args_height a" and "0 < args_pixel_height a"
    and "load_cards m = Inr cards"
    and "main mc a m fs = (Returned code, st)"
    and "processed_files st = []"
  shows "create_contact_sheet fs [] contact_sheet_path tw th = Inr fs
       \<and> disk st = fs
       \<and> GeneratedContactSheet contact_sheet_path \<in> set (printed st)"
proof -
  let ?st0 = "\<lparr>disk = fs, processed_files = [], failures = 0, printed = []\<rparr>"
  let ?fw = "max 1 (py_round (of_int (args_height a) * (3 / 4)))"
  let ?pw = "max 1 (py_round (of_int (args_pixel_height a) * (3 / 4)))"
  have c: "create_contact_sheet f [] contact_sheet_path w t = Inr f" for f w t
    by (simp add: create_contact_sheet_def)
  obtain r st1 where loop:
    "process_cards mc ?fw (args_height a) ?pw (args_pixel_height a) (args_quantize a) cards ?st0
       = (r, st1)"
    by force
  from process_cards_growth [OF loop] obtain ds where
    ds: "processed_files st1 = ds" "ds = [] \<longrightarrow> disk st1 = fs"
    by auto
  have r: "r = None" using assms loop by (auto simp: main_def Let_def split: option.splits)
  show ?thesis
  proof (cases "processed_files st1 = []")
    case True
    then have "st = st1\<lparr>printed := printed st1 @ [GeneratedContactSheet contact_sheet_path]
        @ [Done 0 (failures st1)]\<rparr>"
      using assms loop r c by (auto simp: main_def Let_def)
    then show ?thesis using c ds True by simp
  next
    case False
    then have "processed_files st \<noteq> []"
      using assms(1-5) loop r
      by (auto simp: main_def Let_def split: sum.splits)
    then show ?thesis using assms(6) by simp
  qed
qed

theorem C10_empty_contact_sheet_witness:
  "main demo_mediancut sheet_args lone_manifest demo_files
     = (Returned 1,
        \<lparr>disk = demo_files, processed_files = [], failures = 1,
          printed = [MissingSource ''ghost'', GeneratedContactSheet contact_sheet_path,
                     Done 0 1]\<rparr>)
   \<and> demo_files contact_sheet_path = None"
proof -
  have run: "main demo_mediancut sheet_args lone_manifest demo_files
     = (Returned 1,
        \<lparr>disk = demo_files, processed_files = [], failures = 1,
          printed = [MissingSource ''ghost'', GeneratedContactSheet contact_sheet_path,
                     Done 0 1]\<rparr>)"
    by (simp add: run_defs sheet_args_def demo_args_def lone_manifest_def demo_files_def
        create_contact_sheet_def)
  have l: "load_cards lone_manifest = Inr [JObj [(''slug'', JStr ''ghost'')]]"
    by (simp add: lone_manifest_def load_cards_def dict_get_def)
  have a: "args_contact_sheet sheet_args" "0 < args_height sheet_args"
    "0 < args_pixel_height sheet_args"
    by (simp_all add: sheet_args_def demo_args_def)
  have "demo_files contact_sheet_path = None"
    by (simp add: demo_files_def contact_sheet_path_def)
  then show ?thesis using C10_empty_contact_sheet [OF a l run] run by simp
qed

subsection \<open>The pipeline reads only its source file\<close>

lemma process_one_source_only:
  assumes "fs src = fs' src'"
  shows "map_sum id (\<lambda>f. f dst) (process_one mc fs src dst fw fh pw ph q)
       = map_sum id (\<lambda>f. f dst') (process_one mc fs' src' dst' fw fh pw ph q)"
  using assms unfolding process_one_def open_image_def
  by (simp split: sum.splits option.splits file_content.splits)

subsection \<open>C6: the quantize floor\<close>










subsection \<open>C4: one missing source among N cards\<close>

lemma find_source_image_cong:
  assumes "\<forall>name. fs' (SourceDir, name) = fs (SourceDir, name)"
  shows "find_source_image fs' slug = find_source_image fs slug"
  using assms by (simp add: find_source_image_def)

lemma find_source_image_dir:
  assumes "find_source_image fs slug = Some src"
  shows "fst src = SourceDir"
  using assms by (auto simp: find_source_image_def split: if_splits)

lemma process_one_isl_source_only:
  assumes "fs src = fs' src'"
  shows "isl (process_one mc fs src dst fw fh pw ph q)
       = isl (process_one mc fs' src' dst' fw fh pw ph q)"
proof -
  have "map_sum id (\<lambda>f. f dst) (process_one mc fs src dst fw fh pw ph q)
      = map_sum id (\<lambda>f. f dst') (process_one mc fs' src' dst' fw fh pw ph q)"
    by (rule process_one_source_only [where fs = fs and src = src and fs' = fs' and src' = src',
        OF assms])
  then have "isl (map_sum id (\<lambda>f. f dst) (process_one mc fs src dst fw fh pw ph q))
      = isl (map_sum id (\<lambda>f. f dst') (process_one mc fs' src' dst' fw fh pw ph q))"
    by (rule arg_cong)
  then show ?thesis by (simp add: isl_map_sum)
qed

lemma process_card_processes:
  assumes p: "processes mc fs fw fh pw ph q entry"
    and inv: "\<forall>name. disk st (SourceDir, name) = fs (SourceDir, name)"
  shows "\<exists>kvs im. entry = JObj kvs \<and>
           process_card mc fw fh pw ph q entry st =
             (None, st\<lparr>disk := (disk st)(destination_of (slug_of kvs) \<mapsto> Raster im),
                        processed_files := processed_files st @ [destination_of (slug_of kvs)],
                        printed := printed st
                          @ [Processed (name_of kvs) (destination_of (slug_of kvs))]\<rparr>)"
proof -
  from p obtain kvs src where e: "entry = JObj kvs" and s: "slug_of kvs \<noteq> []"
    and f: "find_source_image fs (slug_of kvs) = Some src"
    and ok: "\<not> isl (process_one mc fs src (destination_of (slug_of kvs)) fw fh pw ph q)"
    by (auto simp: processes_def split: json.splits option.splits)
  have f': "find_source_image (disk st) (slug_of kvs) = Some src"
    using find_source_image_cong [OF inv] f by simp
  obtain name where "src = (SourceDir, name)"
    using find_source_image_dir [OF f] by (cases src) simp
  then have "disk st src = fs src" using inv by simp
  from process_one_isl_source_only [where fs = "disk st" and src = src and fs' = fs
      and src' = src, OF this] ok
  have "\<not> isl (process_one mc (disk st) src (destination_of (slug_of kvs)) fw fh pw ph q)"
    by blast
  then obtain fs' where
    r: "process_one mc (disk st) src (destination_of (slug_of kvs)) fw fh pw ph q = Inr fs'"
    by (cases "process_one mc (disk st) src (destination_of (slug_of kvs)) fw fh pw ph q") auto
  from process_one_Inr [OF r] obtain im where
    "fs' = (disk st)(destination_of (slug_of kvs) \<mapsto> Raster im)" by blast
  then show ?thesis using e s f' r by (auto simp: process_card_def Let_def)
qed

lemma process_card_lacks_source:
  assumes p: "lacks_source fs entry"
    and inv: "\<forall>name. disk st (SourceDir, name) = fs (SourceDir, name)"
  shows "\<exists>kvs. entry = JObj kvs \<and>
           process_card mc fw fh pw ph q entry st =
             (None, st\<lparr>failures := failures st + 1,
                        printed := printed st @ [MissingSource (slug_of kvs)]\<rparr>)"
proof -
  from p obtain kvs where e: "entry = JObj kvs" and s: "slug_of kvs \<noteq> []"
    and f: "find_source_image fs (slug_of kvs) = None"
    by (auto simp: lacks_source_def split: json.splits)
  have "find_source_image (disk st) (slug_of kvs) = None"
    using find_source_image_cong [OF inv] f by simp
  then show ?thesis using e s by (simp add: process_card_def Let_def)
qed

lemma destination_not_source: "destination_of slug \<noteq> (SourceDir, name)"
  by (simp add: destination_of_def)

lemma process_cards_count:
  assumes "\<forall>entry\<in>set cards. processes mc fs fw fh pw ph q entry \<or> lacks_source fs entry"
    and "\<forall>name. disk st (SourceDir, name) = fs (SourceDir, name)"
  shows "\<exists>st'. process_cards mc fw fh pw ph q cards st = (None, st')
      \<and> processed_files st' = processed_files st
            @ map card_destination (filter (processes mc fs fw fh pw ph q) cards)
      \<and> failures st' = failures st + int (length (filter (lacks_source fs) cards))
      \<and> set (printed st) \<subseteq> set (printed st')
      \<and> (\<forall>kvs. JObj kvs \<in> set cards \<and> lacks_source fs (JObj kvs)
            \<longrightarrow> MissingSource (slug_of kvs) \<in> set (printed st'))"
  using assms
proof (induction cards arbitrary: st)
  case Nil
  then show ?case by simp
next
  case (Cons entry rest)
  have excl: "\<not> (processes mc fs fw fh pw ph q entry \<and> lacks_source fs entry)"
    by (auto simp: processes_def lacks_source_def split: json.splits option.splits)
  have rest: "\<forall>entry\<in>set rest. processes mc fs fw fh pw ph q entry \<or> lacks_source fs entry"
    using Cons.prems(1) by simp
  show ?case
  proof (cases "processes mc fs fw fh pw ph q entry")
    case True
    from process_card_processes [OF True Cons.prems(2)] obtain kvs im where
      e: "entry = JObj kvs"
      and s: "process_card mc fw fh pw ph q entry st =
             (None, st\<lparr>disk := (disk st)(destination_of (slug_of kvs) \<mapsto> Raster im),
                        processed_files := processed_files st @ [destination_of (slug_of kvs)],
                        printed := printed st
                          @ [Processed (name_of kvs) (destination_of (slug_of kvs))]\<rparr>)"
      by blast
    let ?st1 = "st\<lparr>disk := (disk st)(destination_of (slug_of kvs) \<mapsto> Raster im),
                   processed_files := processed_files st @ [destination_of (slug_of kvs)],
                   printed := printed st
                     @ [Processed (name_of kvs) (destination_of (slug_of kvs))]\<rparr>"
    have inv1: "\<forall>name. disk ?st1 (SourceDir, name) = fs (SourceDir, name)"
      using Cons.prems(2) by (simp add: destination_of_def)
    from Cons.IH [OF rest inv1] obtain st' where
      r: "process_cards mc fw fh pw ph q rest ?st1 = (None, st')"
      and c: "processed_files st' = processed_files ?st1
            @ map card_destination (filter (processes mc fs fw fh pw ph q) rest)"
      and f: "failures st' = failures ?st1 + int (length (filter (lacks_source fs) rest))"
      and pr: "set (printed ?st1) \<subseteq> set (printed st')"
      and ms: "\<forall>kvs. JObj kvs \<in> set rest \<and> lacks_source fs (JObj kvs)
            \<longrightarrow> MissingSource (slug_of kvs) \<in> set (printed st')"
      by blast
    have nl: "\<not> lacks_source fs entry" using True excl by simp
    have "process_cards mc fw fh pw ph q (entry # rest) st = (None, st')" using s r by simp
    moreover have "processed_files st' = processed_files st
        @ map card_destination (filter (processes mc fs fw fh pw ph q) (entry # rest))"
      using c True e by (simp add: card_destination_def)
    moreover have "failures st' = failures st
        + int (length (filter (lacks_source fs) (entry # rest)))"
      using f nl by simp
    moreover have "set (printed st) \<subseteq> set (printed st')" using pr by auto
    moreover have "\<forall>kvs. JObj kvs \<in> set (entry # rest) \<and> lacks_source fs (JObj kvs)
            \<longrightarrow> MissingSource (slug_of kvs) \<in> set (printed st')"
      using ms nl by auto
    ultimately show ?thesis by blast
  next
    case False
    then have l: "lacks_source fs entry" using Cons.prems(1) by simp
    from process_card_lacks_source [OF l Cons.prems(2)] obtain kvs where
      e: "entry = JObj kvs"
      and s: "process_card mc fw fh pw ph q entry st =
             (None, st\<lparr>failures := failures st + 1,
                        printed := printed st @ [MissingSource (slug_of kvs)]\<rparr>)"
      by blast
    let ?st1 = "st\<lparr>failures := failures st + 1,
                   printed := printed st @ [MissingSource (slug_of kvs)]\<rparr>"
    have inv1: "\<forall>name. disk ?st1 (SourceDir, name) = fs (SourceDir, name)"
      using Cons.prems(2) by simp
    from Cons.IH [OF rest inv1] obtain st' where
      r: "process_cards mc fw fh pw ph q rest ?st1 = (None, st')"
      and c: "processed_files st' = processed_files ?st1
            @ map card_destination (filter (processes mc fs fw fh pw ph q) rest)"
      and f: "failures st' = failures ?st1 + int (length (filter (lacks_source fs) rest))"
      and pr: "set (printed ?st1) \<subseteq> set (printed st')"
      and ms: "\<forall>kvs. JObj kvs \<in> set rest \<and> lacks_source fs (JObj kvs)
            \<longrightarrow> MissingSource (slug_of kvs) \<in> set (printed st')"
      by blast
    have "process_cards mc fw fh pw ph q (entry # rest) st = (None, st')" using s r by simp
    moreover have "processed_files st' = processed_files st
        @ map card_destination (filter (processes mc fs fw fh pw ph q) (entry # rest))"
      using c False by simp
    moreover have "failures st' = failures st
        + int (length (filter (lacks_source fs) (entry # rest)))"
      using f l by simp
    moreover have "set (printed st) \<subseteq> set (printed st')" using pr by auto
    moreover have "\<forall>kvs. JObj kvs \<in> set (entry # rest) \<and> lacks_source fs (JObj kvs)
            \<longrightarrow> MissingSource (slug_of kvs) \<in> set (printed st')"
      using ms pr e by auto
    ultimately show ?thesis by blast
  qed
qed

lemma all_but_one:
  assumes k: "k < length xs" and others: "\<forall>i<length xs. i \<noteq> k \<longrightarrow> P (xs ! i)"
  shows "\<forall>x\<in>set (take k xs @ drop (Suc k) xs). P x"
proof
  fix x assume "x \<in> set (take k xs @ drop (Suc k) xs)"
  then consider "x \<in> set (take k xs)" | "x \<in> set (drop (Suc k) xs)" by auto
  then show "P x"
  proof cases
    case 1
    then obtain i where "i < length (take k xs)" "x = take k xs ! i"
      by (auto simp: in_set_conv_nth)
    then have "i < length xs" "i \<noteq> k" "x = xs ! i" using k by auto
    then show ?thesis using others by blast
  next
    case 2
    then obtain i where "i < length (drop (Suc k) xs)" "x = drop (Suc k) xs ! i"
      by (auto simp: in_set_conv_nth)
    then have "Suc k + i < length xs" "Suc k + i \<noteq> k" "x = xs ! (Suc k + i)" using k by auto
    then show ?thesis using others by blast
  qed
qed

lemma filter_all_but_one:
  assumes k: "k < length xs" and others: "\<forall>i<length xs. i \<noteq> k \<longrightarrow> P (xs ! i)"
  shows "\<not> P (xs ! k) \<Longrightarrow> filter P xs = take k xs @ drop (Suc k) xs"
    and "\<forall>x. P x \<longrightarrow> \<not> Q x \<Longrightarrow> Q (xs ! k) \<Longrightarrow> filter Q xs = [xs ! k]"
proof -
  have xs: "filter R xs = filter R (take k xs) @ filter R [xs ! k] @ filter R (drop (Suc k) xs)"
    for R
    using id_take_nth_drop [OF k] by (metis append_Cons append_Nil filter_append)
  have a: "\<forall>x\<in>set (take k xs). P x" "\<forall>x\<in>set (drop (Suc k) xs). P x"
    using all_but_one [OF k others] by auto
  show "filter P xs = take k xs @ drop (Suc k) xs" if "\<not> P (xs ! k)"
    using that a by (simp add: xs [of P])
  show "filter Q xs = [xs ! k]" if "\<forall>x. P x \<longrightarrow> \<not> Q x" "Q (xs ! k)"
  proof -
    have "\<forall>x\<in>set (take k xs). \<not> Q x" "\<forall>x\<in>set (drop (Suc k) xs). \<not> Q x"
      using that(1) a by blast+
    then show ?thesis using that(2) by (simp add: xs [of Q])
  qed
qed

lemma paste_tiles_ok:
  assumes "\<forall>ip\<in>set xs. \<exists>im. fs (snd ip) = Some (Raster im)"
  shows "\<exists>s. paste_tiles fs tw th xs sheet = Inr s"
  using assms
proof (induction xs arbitrary: sheet)
  case Nil
  then show ?case by simp
next
  case (Cons ip rest)
  obtain i p where ip: "ip = (i, p)" by (cases ip)
  then obtain im where "fs p = Some (Raster im)" using Cons.prems by auto
  then have "open_image fs p = Inr im" by (simp add: open_image_def)
  then show ?case using Cons.IH Cons.prems ip by (simp add: Let_def)
qed

lemma create_contact_sheet_ok:
  assumes "\<forall>p\<in>set outputs. \<exists>im. fs p = Some (Raster im)" and "0 \<le> tw" and "0 \<le> th"
  shows "\<exists>fs'. create_contact_sheet fs outputs dst tw th = Inr fs'"
proof (cases "outputs = []")
  case True
  then show ?thesis by (simp add: create_contact_sheet_def)
next
  case False
  define rows where "rows = (int (length outputs) + 4 - 1) div 4"
  have "0 \<le> rows" by (simp add: rows_def)
  then have "0 \<le> rows * th + (rows + 1) * 12" using assms(3) by simp
  then obtain sheet where n: "new_image (4 * tw + (4 + 1) * 12, rows * th + (rows + 1) * 12)
      (20, 20, 26) = Inr sheet"
    using assms(2) by (simp add: new_image_def)
  have "snd ip \<in> set outputs" if "ip \<in> set (enumerate 0 outputs)" for ip
  proof -
    from that have "fst ip < length outputs" "outputs ! fst ip = snd ip"
      by (simp_all add: in_set_enumerate_eq)
    then show ?thesis using nth_mem by metis
  qed
  then have "\<forall>ip\<in>set (enumerate 0 outputs). \<exists>im. fs (snd ip) = Some (Raster im)"
    using assms(1) by blast
  from paste_tiles_ok [OF this] obtain s where
    "paste_tiles fs tw th (enumerate 0 outputs) sheet = Inr s" by blast
  then show ?thesis using False n by (simp add: create_contact_sheet_def rows_def Let_def)
qed

text \<open>
  C4. For every manifest of N card records, run with valid heights, in which one card (at
  index k) has a slug that is not blank and no source image under any probed extension, and
  every other card processes successfully (it is a dict with a slug that is not blank, its
  source is found and the pipeline raises nothing on it), the batch is not aborted: \<open>main\<close>
  returns 1; the processed outputs are the N - 1 destinations of the other cards, in
  manifest order, each holding an image at the end of the run; one failure is counted and
  the message printed for it names the missing slug; the closing summary reports N - 1
  processed and 1 failure.
\<close>

theorem C4_one_missing_source:
  assumes l: "load_cards m = Inr cards"
    and h: "0 < args_height a" "0 < args_pixel_height a"
    and k: "k < length cards" "cards ! k = JObj kvs" "slug_of kvs \<noteq> []"
      "find_source_image fs (slug_of kvs) = None"
    and others: "\<forall>i<length cards. i \<noteq> k \<longrightarrow>
        processes mc fs (py_round (of_int (args_height a) * (3 / 4))) (args_height a)
          (py_round (of_int (args_pixel_height a) * (3 / 4))) (args_pixel_height a)
          (args_quantize a) (cards ! i)"
    and run: "main mc a m fs = (oc, st)"
  shows "oc = Returned 1
    \<and> processed_files st = map card_destination (take k cards @ drop (Suc k) cards)
    \<and> length (processed_files st) = length cards - 1
    \<and> (\<forall>p\<in>set (processed_files st). \<exists>im. disk st p = Some (Raster im))
    \<and> failures st = 1
    \<and> MissingSource (slug_of kvs) \<in> set (printed st)
    \<and> Done (length cards - 1) 1 \<in> set (printed st)"
proof -
  let ?fw = "py_round (of_int (args_height a) * (3 / 4))"
  let ?pw = "py_round (of_int (args_pixel_height a) * (3 / 4))"
  let ?P = "processes mc fs ?fw (args_height a) ?pw (args_pixel_height a) (args_quantize a)"
  let ?st0 = "\<lparr>disk = fs, processed_files = [], failures = 0, printed = []\<rparr>"
  have fw: "max 1 ?fw = ?fw" and fw0: "0 \<le> ?fw" using py_round_pos [OF h(1)] by simp_all
  have pw: "max 1 ?pw = ?pw" using py_round_pos [OF h(2)] by simp
  have lk: "lacks_source fs (cards ! k)" using k by (simp add: lacks_source_def)
  have excl: "\<forall>x. ?P x \<longrightarrow> \<not> lacks_source fs x"
    by (auto simp: processes_def lacks_source_def split: json.splits option.splits)
  then have nP: "\<not> ?P (cards ! k)" using lk by blast
  have fP: "filter ?P cards = take k cards @ drop (Suc k) cards"
    by (rule filter_all_but_one(1) [OF k(1) others nP])
  have fL: "filter (lacks_source fs) cards = [cards ! k]"
    by (rule filter_all_but_one(2) [OF k(1) others excl lk])
  have every: "\<forall>entry\<in>set cards. ?P entry \<or> lacks_source fs entry"
  proof
    fix entry assume "entry \<in> set cards"
    then obtain i where "i < length cards" "entry = cards ! i" by (auto simp: in_set_conv_nth)
    then show "?P entry \<or> lacks_source fs entry" using others lk by (cases "i = k") auto
  qed
  have inv: "\<forall>name. disk ?st0 (SourceDir, name) = fs (SourceDir, name)" by simp
  have mem: "JObj kvs \<in> set cards \<and> lacks_source fs (JObj kvs)"
    using k(1,2) lk nth_mem by metis
  from process_cards_count [OF every inv] obtain st1 where
    loop: "process_cards mc ?fw (args_height a) ?pw (args_pixel_height a) (args_quantize a)
             cards ?st0 = (None, st1)"
    and pf0: "processed_files st1 = processed_files ?st0 @ map card_destination (filter ?P cards)"
    and fl0: "failures st1 = failures ?st0 + int (length (filter (lacks_source fs) cards))"
    and ms0: "\<forall>kvs. JObj kvs \<in> set cards \<and> lacks_source fs (JObj kvs)
            \<longrightarrow> MissingSource (slug_of kvs) \<in> set (printed st1)"
    by blast
  have pf: "processed_files st1 = map card_destination (take k cards @ drop (Suc k) cards)"
    using pf0 fP by simp
  have fl: "failures st1 = 1" using fl0 fL by simp
  have ms: "MissingSource (slug_of kvs) \<in> set (printed st1)" using ms0 mem by blast
  have len: "length (processed_files st1) = length cards - 1" using pf k(1) by simp
  have sz: "sized ?fw (args_height a) st1"
    by (rule process_cards_sized [OF loop]) (simp add: sized_def)
  then have on_disk: "\<forall>p\<in>set (processed_files st1). \<exists>im. disk st1 p = Some (Raster im)"
    by (auto simp: sized_def)
  show ?thesis
  proof (cases "args_contact_sheet a")
    case False
    then have "oc = Returned 1 \<and> st = st1\<lparr>printed := printed st1 @ [Done (length cards - 1) 1]\<rparr>"
      using run l h loop fl len unfolding main_def Let_def fw pw by auto
    then show ?thesis using pf len on_disk fl ms by simp
  next
    case True
    have "0 \<le> args_height a" using h(1) by simp
    from create_contact_sheet_ok [OF on_disk fw0 this] obtain fs' where
      cs: "create_contact_sheet (disk st1) (processed_files st1) contact_sheet_path ?fw
             (args_height a) = Inr fs'"
      by blast
    have d: "\<forall>p\<in>set (processed_files st1). \<exists>im. fs' p = Some (Raster im)"
      using create_contact_sheet_Inr [OF cs] on_disk by auto
    have "oc = Returned 1 \<and> st = st1\<lparr>disk := fs',
        printed := printed st1 @ [GeneratedContactSheet contact_sheet_path]
                   @ [Done (length cards - 1) 1]\<rparr>"
      using run l h loop fl len True cs unfolding main_def Let_def fw pw by auto
    then show ?thesis using pf len d fl ms by simp
  qed
qed

theorem C4_one_missing_source_witness:
  "fst (main demo_mediancut demo_args pair_manifest demo_files) = Returned 1
   \<and> processed_files (snd (main demo_mediancut demo_args pair_manifest demo_files))
       = [(ProcessedDir, ''a.png'')]
   \<and> MissingSource ''ghost''
       \<in> set (printed (snd (main demo_mediancut demo_args pair_manifest demo_files)))"
proof -
  let ?cards = "[JObj [(''slug'', JStr ''ghost'')],
                 JObj [(''slug'', JStr ''a''), (''name'', JStr ''A'')]]"
  have l: "load_cards pair_manifest = Inr ?cards"
    by (simp add: pair_manifest_def load_cards_def dict_get_def)
  have h: "0 < args_height demo_args" "0 < args_pixel_height demo_args"
    by (simp_all add: demo_args_def)
  have k: "(0 :: nat) < length ?cards" "?cards ! 0 = JObj [(''slug'', JStr ''ghost'')]"
    by simp_all
  have s: "slug_of [(''slug'', JStr ''ghost'')] = ''ghost''"
    by (simp add: run_defs)
  have f: "find_source_image demo_files (slug_of [(''slug'', JStr ''ghost'')]) = None"
    unfolding s by (simp add: find_source_image_def demo_files_def)
  have ne: "slug_of [(''slug'', JStr ''ghost'')] \<noteq> []" unfolding s by simp
  have p: "processes demo_mediancut demo_files
      (py_round (of_int (args_height demo_args) * (3 / 4))) (args_height demo_args)
      (py_round (of_int (args_pixel_height demo_args) * (3 / 4))) (args_pixel_height demo_args)
      (args_quantize demo_args) (JObj [(''slug'', JStr ''a''), (''name'', JStr ''A'')])"
    by (simp add: processes_def run_defs demo_files_def demo_image_def demo_mediancut_def
        demo_args_def)
  have others: "\<forall>i<length ?cards. i \<noteq> 0 \<longrightarrow>
      processes demo_mediancut demo_files
        (py_round (of_int (args_height demo_args) * (3 / 4))) (args_height demo_args)
        (py_round (of_int (args_pixel_height demo_args) * (3 / 4)))
        (args_pixel_height demo_args) (args_quantize demo_args) (?cards ! i)"
  proof (intro allI impI)
    fix i :: nat assume "i < length ?cards" "i \<noteq> 0"
    then have "i = 1" by simp
    then show "processes demo_mediancut demo_files
        (py_round (of_int (args_height demo_args) * (3 / 4))) (args_height demo_args)
        (py_round (of_int (args_pixel_height demo_args) * (3 / 4)))
        (args_pixel_height demo_args) (args_quantize demo_args) (?cards ! i)"
      using p by simp
  qed
  have m: "main demo_mediancut demo_args pair_manifest demo_files
      = (fst (main demo_mediancut demo_args pair_manifest demo_files),
         snd (main demo_mediancut demo_args pair_manifest demo_files))"
    by simp
  have s': "slug_of [(''slug'', JStr ''a''), (''name'', JStr ''A'')] = ''a''"
    by (simp add: run_defs)
  from C4_one_missing_source [OF l h k ne f others m]
  show ?thesis unfolding s by (simp add: card_destination_def destination_of_def s')
qed

subsection \<open>C5: the layout of the contact sheet\<close>

lemma stride:
  fixes a b s :: int
  assumes "a < b" and "0 \<le> s"
  shows "a * s + s \<le> b * s"
proof -
  have "(a + 1) * s \<le> b * s" using assms by (intro mult_right_mono) simp_all
  then show ?thesis by (simp add: algebra_simps)
qed

lemma same_cell:
  fixes a b s X t :: int
  assumes "12 + a * (t + 12) \<le> X" "X < 12 + a * (t + 12) + t"
    and "12 + b * (t + 12) \<le> X" "X < 12 + b * (t + 12) + t"
  shows "a = b"
proof (rule ccontr)
  assume ne: "a \<noteq> b"
  have t: "0 \<le> t + 12" using assms(1,2) by simp
  show False
  proof (cases "a < b")
    case True
    from stride [OF True t] assms(2,3) show False by simp
  next
    case False
    then have "b < a" using ne by simp
    from stride [OF this t] assms(1,4) show False by simp
  qed
qed

lemma in_box_unique:
  assumes "in_box tw th i X Y" and "in_box tw th j X Y"
  shows "i = j"
proof -
  have c: "int (i mod 4) = int (j mod 4)"
    using assms unfolding in_box_def tile_left_def by (intro same_cell [of _ tw X]) simp_all
  have r: "int (i div 4) = int (j div 4)"
    using assms unfolding in_box_def tile_top_def by (intro same_cell [of _ th Y]) simp_all
  have "i = 4 * (i div 4) + i mod 4" "j = 4 * (j div 4) + j mod 4" by simp_all
  then show ?thesis using c r by (metis of_nat_eq_iff)
qed

lemma ceiling_quarter: "(int n + 4 - 1) div 4 = \<lceil>rat_of_nat n / 4\<rceil>"
proof -
  have "\<lceil>rat_of_nat n / 4\<rceil> = \<lceil>rat_of_int (int n) / rat_of_int 4\<rceil>" by simp
  also have "\<dots> = - (- int n div 4)" by (rule ceiling_divide_eq_div)
  also have "\<dots> = (int n + 4 - 1) div 4" by presburger
  finally show ?thesis by simp
qed

lemma paste_pixels:
  assumes "width tile = tw" and "height tile = th"
  shows "pixels (paste sheet tile (tile_left tw n, tile_top th n)) X Y =
     (if in_box tw th n X Y then pixels tile (X - tile_left tw n) (Y - tile_top th n)
      else pixels sheet X Y)"
  using assms by (simp add: paste_def in_box_def)

lemma paste_size:
  "width (paste sheet tile pos) = width sheet \<and> height (paste sheet tile pos) = height sheet"
  by (cases pos) (simp add: paste_def)

lemma paste_tiles_step:
  assumes "fs p = Some (Raster tile)"
  shows "paste_tiles fs tw th (enumerate n (p # rest)) sheet
       = paste_tiles fs tw th (enumerate (Suc n) rest)
           (paste sheet tile (tile_left tw n, tile_top th n))"
  using assms by (simp add: open_image_def Let_def tile_left_def tile_top_def zmod_int zdiv_int)

lemma paste_tiles_layout:
  assumes "\<forall>j<length ps. \<exists>im. fs (ps ! j) = Some (Raster im) \<and> width im = tw \<and> height im = th"
  shows "\<exists>s. paste_tiles fs tw th (enumerate n ps) sheet = Inr s
      \<and> width s = width sheet \<and> height s = height sheet
      \<and> (\<forall>j<length ps. \<forall>im X Y. fs (ps ! j) = Some (Raster im) \<and> in_box tw th (n + j) X Y
            \<longrightarrow> pixels s X Y = pixels im (X - tile_left tw (n + j)) (Y - tile_top th (n + j)))
      \<and> (\<forall>X Y. (\<forall>j<length ps. \<not> in_box tw th (n + j) X Y) \<longrightarrow> pixels s X Y = pixels sheet X Y)"
  using assms
proof (induction ps arbitrary: n sheet)
  case Nil
  then show ?case by simp
next
  case (Cons p rest)
  from Cons.prems have "\<exists>im. fs ((p # rest) ! 0) = Some (Raster im) \<and> width im = tw \<and> height im = th"
    by blast
  then obtain tile where t: "fs p = Some (Raster tile)" and w: "width tile = tw"
    and h: "height tile = th" by auto
  define sheet1 where "sheet1 = paste sheet tile (tile_left tw n, tile_top th n)"
  have p1: "pixels sheet1 X Y =
     (if in_box tw th n X Y then pixels tile (X - tile_left tw n) (Y - tile_top th n)
      else pixels sheet X Y)" for X Y
    unfolding sheet1_def by (rule paste_pixels [OF w h])
  have sz1: "width sheet1 = width sheet \<and> height sheet1 = height sheet"
    unfolding sheet1_def by (rule paste_size)
  have rest: "\<forall>j<length rest. \<exists>im. fs (rest ! j) = Some (Raster im) \<and> width im = tw \<and> height im = th"
  proof (intro allI impI)
    fix j assume "j < length rest"
    then have "Suc j < length (p # rest)" by simp
    with Cons.prems have "\<exists>im. fs ((p # rest) ! Suc j) = Some (Raster im) \<and> width im = tw \<and> height im = th"
      by blast
    then show "\<exists>im. fs (rest ! j) = Some (Raster im) \<and> width im = tw \<and> height im = th" by simp
  qed
  from Cons.IH [OF rest, of "Suc n" sheet1] obtain s where
    r: "paste_tiles fs tw th (enumerate (Suc n) rest) sheet1 = Inr s"
    and sz: "width s = width sheet1" "height s = height sheet1"
    and tiles: "\<And>j im X Y. j < length rest \<Longrightarrow> fs (rest ! j) = Some (Raster im) \<Longrightarrow>
        in_box tw th (Suc n + j) X Y \<Longrightarrow>
        pixels s X Y = pixels im (X - tile_left tw (Suc n + j)) (Y - tile_top th (Suc n + j))"
    and bg: "\<And>X Y. (\<forall>j<length rest. \<not> in_box tw th (Suc n + j) X Y) \<Longrightarrow>
        pixels s X Y = pixels sheet1 X Y"
    by blast
  have run: "paste_tiles fs tw th (enumerate n (p # rest)) sheet = Inr s"
    using paste_tiles_step [where fs = fs and p = p, OF t, of tw th n rest sheet] r
    by (simp add: sheet1_def)
  have tiles': "pixels s X Y = pixels im (X - tile_left tw (n + j)) (Y - tile_top th (n + j))"
    if j: "j < length (p # rest)" and f: "fs ((p # rest) ! j) = Some (Raster im)"
      and b: "in_box tw th (n + j) X Y" for j im X Y
  proof (cases j)
    case 0
    then have im: "im = tile" using f t by simp
    have "\<forall>j'<length rest. \<not> in_box tw th (Suc n + j') X Y"
    proof (intro allI impI notI)
      fix j' assume "in_box tw th (Suc n + j') X Y"
      from in_box_unique [OF this b] 0 show False by simp
    qed
    then have "pixels s X Y = pixels sheet1 X Y" by (rule bg)
    then show ?thesis using p1 [of X Y] b 0 im by simp
  next
    case (Suc j')
    then show ?thesis using tiles [of j' im X Y] j f b by simp
  qed
  have bg': "pixels s X Y = pixels sheet X Y"
    if n: "\<forall>j<length (p # rest). \<not> in_box tw th (n + j) X Y" for X Y
  proof -
    have "\<not> in_box tw th (n + 0) X Y" using n by blast
    then have a: "pixels sheet1 X Y = pixels sheet X Y" using p1 [of X Y] by simp
    have "\<forall>j<length rest. \<not> in_box tw th (Suc n + j) X Y"
    proof (intro allI impI)
      fix j assume "j < length rest"
      then have "Suc j < length (p # rest)" by simp
      with n have "\<not> in_box tw th (n + Suc j) X Y" by blast
      then show "\<not> in_box tw th (Suc n + j) X Y" by simp
    qed
    then show ?thesis using bg a by simp
  qed
  show ?case using run sz sz1 tiles' bg' by simp
qed

lemma in_box_margin:
  assumes "in_box tw th i X Y"
  shows "12 \<le> X \<and> 12 \<le> Y"
proof -
  have tw: "0 \<le> tw + 12" and th: "0 \<le> th + 12" using assms by (simp_all add: in_box_def)
  have a: "0 \<le> int (i mod 4) * (tw + 12)" and b: "0 \<le> int (i div 4) * (th + 12)"
    using tw th by simp_all
  from assms a b show ?thesis unfolding in_box_def tile_left_def tile_top_def by linarith
qed

lemma tile_in_sheet:
  assumes "i < n" and "0 \<le> tw" and "0 \<le> th" and "x < tw" and "y < th"
  shows "12 + int (i mod 4) * (tw + 12) + x < 4 * tw + 5 * 12
       \<and> 12 + int (i div 4) * (th + 12) + y
           < ((int n + 4 - 1) div 4) * th + ((int n + 4 - 1) div 4 + 1) * 12"
proof -
  define c where "c = int (i mod 4)"
  define r where "r = int (i div 4)"
  define R where "R = (int n + 4 - 1) div 4"
  have "c \<le> 3" unfolding c_def by simp
  then have "c * (tw + 12) \<le> 3 * (tw + 12)" using assms(2) by (intro mult_right_mono) simp_all
  then have a: "12 + c * (tw + 12) + x < 4 * tw + 5 * 12" using assms(4) by simp
  have "r = int i div 4" unfolding r_def by (simp add: zdiv_int)
  moreover have "int i < int n" using assms(1) by simp
  ultimately have "r + 1 \<le> R" unfolding R_def by linarith
  then have "(r + 1) * (th + 12) \<le> R * (th + 12)"
    using assms(3) by (intro mult_right_mono) simp_all
  then have "r * (th + 12) + th + 12 \<le> R * th + R * 12" by (simp add: algebra_simps)
  then have b: "12 + r * (th + 12) + y < R * th + (R + 1) * 12"
    using assms(5) by (simp add: algebra_simps)
  show ?thesis using a b unfolding c_def r_def R_def by simp
qed

text \<open>
  C5. For every nonempty list of N processed card images that all have the tile size
  (tile\_w, tile\_h), \<open>create_contact_sheet\<close> writes a sheet of width exactly
  4 * tile\_w + 5 * 12 and height exactly ceil(N/4) * tile\_h + (ceil(N/4) + 1) * 12. For
  every index i, the tile sits with its top-left corner at
  (12 + (i mod 4) * (tile\_w + 12), 12 + (i div 4) * (tile\_h + 12)) and is not resized:
  pixel (x, y) of the tile is the pixel of the sheet at that corner plus (x, y), which lies
  inside the sheet. Every pixel of the sheet outside the boxes of the tiles has the
  background colour (20, 20, 26). Tile sizes, being sizes of images, are not negative.
\<close>

theorem C5_contact_sheet_layout:
  assumes "outputs \<noteq> []" and "0 \<le> tw" and "0 \<le> th"
    and "\<forall>i<length outputs. \<exists>im. fs (outputs ! i) = Some (Raster im)
            \<and> width im = tw \<and> height im = th"
  shows "\<exists>sheet. create_contact_sheet fs outputs dst tw th = Inr (fs(dst \<mapsto> Raster sheet))
    \<and> width sheet = 4 * tw + 5 * 12
    \<and> height sheet = \<lceil>rat_of_nat (length outputs) / 4\<rceil> * th
                      + (\<lceil>rat_of_nat (length outputs) / 4\<rceil> + 1) * 12
    \<and> (\<forall>i<length outputs. \<forall>im x y.
          fs (outputs ! i) = Some (Raster im) \<and> 0 \<le> x \<and> x < tw \<and> 0 \<le> y \<and> y < th \<longrightarrow>
          12 + int (i mod 4) * (tw + 12) + x < width sheet
          \<and> 12 + int (i div 4) * (th + 12) + y < height sheet
          \<and> pixels sheet (12 + int (i mod 4) * (tw + 12) + x) (12 + int (i div 4) * (th + 12) + y)
              = pixels im x y)
    \<and> (\<forall>X Y. (\<forall>i<length outputs. \<not> in_box tw th i X Y) \<longrightarrow> pixels sheet X Y = (20, 20, 26))"
proof -
  define rows where "rows = \<lceil>rat_of_nat (length outputs) / 4\<rceil>"
  have rows: "(int (length outputs) + 4 - 1) div 4 = rows"
    unfolding rows_def by (rule ceiling_quarter)
  have "0 \<le> rows" unfolding rows [symmetric] by simp
  then have "0 \<le> rows * th + (rows + 1) * 12" using assms(3) by simp
  moreover define blank where
    "blank = \<lparr>width = 4 * tw + (4 + 1) * 12, height = rows * th + (rows + 1) * 12,
              pixels = (\<lambda>x y. (20 :: nat, 20 :: nat, 26 :: nat))\<rparr>"
  ultimately have n: "new_image (4 * tw + (4 + 1) * 12, rows * th + (rows + 1) * 12) (20, 20, 26)
      = Inr blank"
    using assms(2) by (simp add: new_image_def)
  from paste_tiles_layout [OF assms(4), of 0 blank] obtain s where
    r: "paste_tiles fs tw th (enumerate 0 outputs) blank = Inr s"
    and sz: "width s = width blank" "height s = height blank"
    and tiles: "\<And>j im X Y. j < length outputs \<Longrightarrow> fs (outputs ! j) = Some (Raster im) \<Longrightarrow>
        in_box tw th j X Y \<Longrightarrow>
        pixels s X Y = pixels im (X - tile_left tw j) (Y - tile_top th j)"
    and bg: "\<And>X Y. (\<forall>j<length outputs. \<not> in_box tw th j X Y) \<Longrightarrow>
        pixels s X Y = pixels blank X Y"
    by auto
  have c: "create_contact_sheet fs outputs dst tw th = Inr (fs(dst \<mapsto> Raster s))"
    using assms(1) n r unfolding create_contact_sheet_def Let_def rows by simp
  have t: "pixels s (12 + int (i mod 4) * (tw + 12) + x) (12 + int (i div 4) * (th + 12) + y)
            = pixels im x y"
    if "i < length outputs" "fs (outputs ! i) = Some (Raster im)" "0 \<le> x" "x < tw" "0 \<le> y"
      "y < th" for i im x y
  proof -
    have "in_box tw th i (tile_left tw i + x) (tile_top th i + y)"
      using that by (simp add: in_box_def)
    from tiles [OF that(1,2) this] show ?thesis by (simp add: tile_left_def tile_top_def)
  qed
  have b: "pixels s X Y = (20, 20, 26)" if "\<forall>i<length outputs. \<not> in_box tw th i X Y" for X Y
    using bg [OF that] by (simp add: blank_def)
  have ws: "width s = 4 * tw + 5 * 12" and hs: "height s = rows * th + (rows + 1) * 12"
    using sz by (simp_all add: blank_def)
  have inside: "12 + int (i mod 4) * (tw + 12) + x < width s
      \<and> 12 + int (i div 4) * (th + 12) + y < height s"
    if "i < length outputs" "x < tw" "y < th" for i x y
    using tile_in_sheet [OF that(1) assms(2,3) that(2,3)] unfolding ws hs rows by simp
  show ?thesis using c t b ws hs inside unfolding rows_def by blast
qed

theorem C5_contact_sheet_layout_witness:
  "\<exists>sheet. create_contact_sheet tile_files tile_outputs contact_sheet_path 3 2
       = Inr (tile_files(contact_sheet_path \<mapsto> Raster sheet))
     \<and> width sheet = 72 \<and> height sheet = 40
     \<and> pixels sheet 29 13 = (2, 1, 7)
     \<and> pixels sheet 14 27 = (2, 1, 7)
     \<and> pixels sheet 0 0 = (20, 20, 26)"
proof -
  have ne: "tile_outputs \<noteq> []" by (simp add: tile_outputs_def)
  have len: "length tile_outputs = 5" by (simp add: tile_outputs_def)
  have sz: "(0 :: int) \<le> 3" "(0 :: int) \<le> 2" by simp_all
  have "\<forall>p\<in>set tile_outputs. \<exists>im. tile_files p = Some (Raster im)
          \<and> width im = 3 \<and> height im = 2"
    by (simp add: tile_outputs_def tile_files_def tile_image_def)
  then have u: "\<forall>i<length tile_outputs. \<exists>im. tile_files (tile_outputs ! i) = Some (Raster im)
          \<and> width im = 3 \<and> height im = 2"
    by (simp add: all_set_conv_all_nth)
  have f1: "tile_files (tile_outputs ! 1) = Some (Raster tile_image)"
    and f4: "tile_files (tile_outputs ! 4) = Some (Raster tile_image)"
    by (simp_all add: tile_outputs_def tile_files_def)
  have c: "\<lceil>rat_of_nat 5 / 4\<rceil> = 2"
    using ceiling_quarter [of 5] by simp
  have out: "\<forall>i<length tile_outputs. \<not> in_box 3 2 i 0 0"
    using in_box_margin [of 3 2 _ 0 0] by auto
  from C5_contact_sheet_layout [OF ne sz u, of contact_sheet_path] obtain sheet where
    r: "create_contact_sheet tile_files tile_outputs contact_sheet_path 3 2
       = Inr (tile_files(contact_sheet_path \<mapsto> Raster sheet))"
    and w: "width sheet = 4 * 3 + 5 * 12"
    and h: "height sheet = \<lceil>rat_of_nat (length tile_outputs) / 4\<rceil> * 2
                      + (\<lceil>rat_of_nat (length tile_outputs) / 4\<rceil> + 1) * 12"
    and t: "\<And>i im x y. i < length tile_outputs \<Longrightarrow> tile_files (tile_outputs ! i) = Some (Raster im)
          \<Longrightarrow> 0 \<le> x \<Longrightarrow> x < 3 \<Longrightarrow> 0 \<le> y \<Longrightarrow> y < 2 \<Longrightarrow>
          12 + int (i mod 4) * (3 + 12) + x < width sheet
          \<and> 12 + int (i div 4) * (2 + 12) + y < height sheet
          \<and> pixels sheet (12 + int (i mod 4) * (3 + 12) + x) (12 + int (i div 4) * (2 + 12) + y)
              = pixels im x y"
    and b: "\<And>X Y. (\<forall>i<length tile_outputs. \<not> in_box 3 2 i X Y) \<Longrightarrow> pixels sheet X Y = (20, 20, 26)"
    by blast
  have "width sheet = 72" using w by simp
  moreover have "height sheet = 40" using h c unfolding len by simp
  moreover have "pixels sheet 29 13 = (2, 1, 7)"
    using t [of 1 tile_image 2 1] f1 len by (simp add: tile_image_def)
  moreover have "pixels sheet 14 27 = (2, 1, 7)"
    using t [of 4 tile_image 2 1] f4 len by (simp add: tile_image_def)
  moreover have "pixels sheet 0 0 = (20, 20, 26)" by (rule b [OF out])
  ultimately show ?thesis using r by blast
qed

end
